theory Spec2Isabelle
  imports Main
begin

section \<open>File Renamer Pro v9: the rename core of \<^verbatim>\<open>file-org-v9.py\<close>\<close>

text \<open>
  The development embeds the name generator (\<^verbatim>\<open>generate_new_name\<close>), the preview loop
  (\<^verbatim>\<open>preview_changes\<close>) and the rename pass (\<^verbatim>\<open>rename_files_from_excel\<close>) of the
  application.  The windowed interface, the progress bar and the spreadsheet reader are
  not part of it: a spreadsheet is the list of its rows, in sheet order, every cell a
  string (\<^verbatim>\<open>read_excel(..., dtype=str).fillna("")\<close>).
\<close>

subsection \<open>Python strings\<close>

text \<open>
  A string is the list of the bytes of its UTF-8 encoding.  \<^verbatim>\<open>s.startswith(e)\<close>:
\<close>

definition startswith :: "string \<Rightarrow> string \<Rightarrow> bool" where
  "startswith s e = (take (length e) s = e)"

text \<open>
  \<^verbatim>\<open>str.strip()\<close> removes leading and trailing white space.  These are the code points
  Python counts as white space, each as its UTF-8 bytes: U+0009 to U+000D, U+001C to
  U+0020, U+0085, U+00A0, U+1680, U+2000 to U+200A, U+2028, U+2029, U+202F, U+205F and
  U+3000.
\<close>

definition space_codes :: "string list" where
  "space_codes =
     [[CHR 0x09], [CHR 0x0A], [CHR 0x0B], [CHR 0x0C], [CHR 0x0D],
      [CHR 0x1C], [CHR 0x1D], [CHR 0x1E], [CHR 0x1F], [CHR 0x20],
      [CHR 0xC2, CHR 0x85], [CHR 0xC2, CHR 0xA0], [CHR 0xE1, CHR 0x9A, CHR 0x80],
      [CHR 0xE2, CHR 0x80, CHR 0x80], [CHR 0xE2, CHR 0x80, CHR 0x81],
      [CHR 0xE2, CHR 0x80, CHR 0x82], [CHR 0xE2, CHR 0x80, CHR 0x83],
      [CHR 0xE2, CHR 0x80, CHR 0x84], [CHR 0xE2, CHR 0x80, CHR 0x85],
      [CHR 0xE2, CHR 0x80, CHR 0x86], [CHR 0xE2, CHR 0x80, CHR 0x87],
      [CHR 0xE2, CHR 0x80, CHR 0x88], [CHR 0xE2, CHR 0x80, CHR 0x89],
      [CHR 0xE2, CHR 0x80, CHR 0x8A], [CHR 0xE2, CHR 0x80, CHR 0xA8],
      [CHR 0xE2, CHR 0x80, CHR 0xA9], [CHR 0xE2, CHR 0x80, CHR 0xAF],
      [CHR 0xE2, CHR 0x81, CHR 0x9F], [CHR 0xE3, CHR 0x80, CHR 0x80]]"

text \<open>Removing, as long as there is one, a leading occurrence of one of the given codes.\<close>

function strip_leading :: "string list \<Rightarrow> string \<Rightarrow> string" where
  "strip_leading codes s =
     (case find (\<lambda>w. w \<noteq> [] \<and> startswith s w) codes of
        None \<Rightarrow> s
      | Some w \<Rightarrow> strip_leading codes (drop (length w) s))"
  by pat_completeness auto
termination
proof (relation "measure (\<lambda>(codes, s). length s)")
  show "wf (measure (\<lambda>(codes, s). length s))"
    by simp
next
  fix codes :: "string list" and s w :: string
  assume "find (\<lambda>w. w \<noteq> [] \<and> startswith s w) codes = Some w"
  then have "w \<noteq> []" and "take (length w) s = w"
    by (auto simp: find_Some_iff startswith_def)
  then have "0 < length w"
    by simp
  moreover have "length w \<le> length s"
  proof -
    from \<open>take (length w) s = w\<close> have "length (take (length w) s) = length w"
      by simp
    then show ?thesis
      by (simp add: min_def split: if_splits)
  qed
  ultimately have "length s - length w < length s"
    by arith
  then show "((codes, drop (length w) s), (codes, s)) \<in> measure (\<lambda>(codes, s). length s)"
    by simp
qed

declare strip_leading.simps [simp del]

definition lstrip :: "string \<Rightarrow> string" where
  "lstrip s = strip_leading space_codes s"

text \<open>
  At the end of the string the same, on the reversed bytes: in UTF-8 the bytes of a code
  point end a string only where the code point does.
\<close>

definition rstrip :: "string \<Rightarrow> string" where
  "rstrip s = rev (strip_leading (map rev space_codes) (rev s))"

definition strip :: "string \<Rightarrow> string" where
  "strip s = rstrip (lstrip s)"

text \<open>\<^verbatim>\<open>s.endswith(e)\<close>; every string ends with the empty string.\<close>

definition endswith :: "string \<Rightarrow> string \<Rightarrow> bool" where
  "endswith s e = (length e \<le> length s \<and> drop (length s - length e) s = e)"

text \<open>\<^verbatim>\<open>s.rfind(c)\<close> for a one-character \<open>c\<close>: the highest index of \<open>c\<close>, or \<open>-1\<close>.\<close>

fun rfind :: "string \<Rightarrow> char \<Rightarrow> int" where
  "rfind [] c = -1"
| "rfind (x # xs) c =
     (let r = rfind xs c in if 0 \<le> r then r + 1 else if x = c then 0 else -1)"

text \<open>The decimal digits of a number, as an f-string prints it.\<close>

definition digit_char :: "nat \<Rightarrow> char" where
  "digit_char d = char_of (48 + d)"

fun str_nat :: "nat \<Rightarrow> string" where
  "str_nat n = (if n < 10 then [digit_char n] else str_nat (n div 10) @ [digit_char (n mod 10)])"

declare str_nat.simps [simp del]

subsection \<open>Paths (\<^verbatim>\<open>os.path\<close>, POSIX flavour)\<close>

text \<open>
  \<^verbatim>\<open>os.path.splitext\<close>: the extension starts at the last dot of the last path component,
  unless that component consists of leading dots only up to there.  The loop is the one
  of the library, which walks over the leading dots.
\<close>

function skip_leading_dots :: "string \<Rightarrow> nat \<Rightarrow> nat \<Rightarrow> bool" where
  "skip_leading_dots p filenameIndex dotIndex =
     (if filenameIndex < dotIndex then
        (if p ! filenameIndex \<noteq> CHR ''.'' then True
         else skip_leading_dots p (filenameIndex + 1) dotIndex)
      else False)"
  by pat_completeness auto
termination
  by (relation "measure (\<lambda>(p, filenameIndex, dotIndex). dotIndex - filenameIndex)") auto

declare skip_leading_dots.simps [simp del]

definition splitext :: "string \<Rightarrow> string \<times> string" where
  "splitext p =
     (let sepIndex = rfind p CHR ''/'';
          dotIndex = rfind p CHR ''.''
      in if sepIndex < dotIndex \<and> skip_leading_dots p (nat (sepIndex + 1)) (nat dotIndex)
         then (take (nat dotIndex) p, drop (nat dotIndex) p)
         else (p, []))"

text \<open>\<^verbatim>\<open>os.path.basename\<close>, \<^verbatim>\<open>os.path.dirname\<close> and the two-argument \<^verbatim>\<open>os.path.join\<close>.\<close>

definition basename :: "string \<Rightarrow> string" where
  "basename p = drop (nat (rfind p CHR ''/'' + 1)) p"

definition dirname :: "string \<Rightarrow> string" where
  "dirname p =
     (let head = take (nat (rfind p CHR ''/'' + 1)) p
      in if head \<noteq> [] \<and> head \<noteq> replicate (length head) CHR ''/''
         then rev (dropWhile (\<lambda>c. c = CHR ''/'') (rev head))
         else head)"

definition join :: "string \<Rightarrow> string \<Rightarrow> string" where
  "join a b =
     (if startswith b ''/'' then b
      else if a = [] \<or> endswith a ''/'' then a @ b
      else a @ ''/'' @ b)"

subsection \<open>The name generator\<close>

text \<open>
  A spreadsheet row.  \<^verbatim>\<open>row.get(column, '')\<close> reads a cell; a missing column and an empty
  cell both read as the empty string.
\<close>

record row =
  Current_Filename :: string
  Prefix :: string
  New_Filename :: string
  Notes :: string

text \<open>
  \<^verbatim>\<open>generate_new_name(row, old_name, mode, ext, delimiter)\<close>.  The mode is the string of
  the mode selector: \<^verbatim>\<open>"Prefix"\<close>, and anything else is the Replace branch.  The
  delimiter may be \<^verbatim>\<open>None\<close> in the function (the callers always pass a string).
\<close>

definition generate_new_name :: "row \<Rightarrow> string \<Rightarrow> string \<Rightarrow> string \<Rightarrow> string option \<Rightarrow> string" where
  "generate_new_name row old_name mode ext delimiter =
     (let prefix = strip (Prefix row);
          new_field = strip (New_Filename row);
          new_base =
            (if mode = ''Prefix'' then
               (if prefix \<noteq> [] then
                  (let base = (if new_field \<noteq> [] then new_field
                               else fst (splitext old_name))
                   in (case delimiter of
                         Some d \<Rightarrow> prefix @ d @ base
                       | None \<Rightarrow> prefix @ base))
                else
                  (if new_field \<noteq> [] then new_field
                   else fst (splitext old_name)))
             else
               (if new_field \<noteq> [] then new_field
                else fst (splitext old_name)))
      in if \<not> endswith new_base ext then new_base @ ext else new_base)"

text \<open>
  The rules of the specification, in its words: the result stem of each mode, and the
  final name (stem plus extension, the extension not duplicated).
\<close>

definition spec_stem :: "string \<Rightarrow> string \<Rightarrow> string \<Rightarrow> string \<Rightarrow> string \<Rightarrow> string" where
  "spec_stem mode prefix new_base delimiter matched_name =
     (if mode = ''Prefix'' \<and> prefix \<noteq> []
      then prefix @ delimiter @ (if new_base \<noteq> [] then new_base else fst (splitext matched_name))
      else (if new_base \<noteq> [] then new_base else fst (splitext matched_name)))"

definition spec_final_name :: "string \<Rightarrow> string \<Rightarrow> string" where
  "spec_final_name stem ext = (if endswith stem ext then stem else stem @ ext)"

subsection \<open>The file system\<close>

text \<open>
  The folder is seen through four calls: \<^verbatim>\<open>os.path.exists\<close>, \<^verbatim>\<open>os.path.samefile\<close>,
  \<^verbatim>\<open>os.rename\<close> and (once, before the pass) the listing.  A file system state resolves a
  path to the identity of the file it names, if any; two paths may name one file (hard
  links, two spellings of one path, or names that differ by case on a case-insensitive
  volume).  What makes the system refuse a rename is not part of the state's structure:
  \<open>rename_error\<close> gives, for a source and a target, the error with which the system
  refuses to rename the one to the other (the source in use, permission denied, the
  target's folder missing, the name too long or not allowed), if it does.  The folder holds
  files and their names only: symbolic links are not modelled.
\<close>

datatype errno = ENOENT | EACCES | EEXIST | EINVAL | ENAMETOOLONG

record filesystem =
  inode_of :: "string \<rightharpoonup> nat"
  rename_error :: "string \<Rightarrow> string \<Rightarrow> errno option"

text \<open>Python's \<^verbatim>\<open>OSError\<close>: error number, \<^verbatim>\<open>filename\<close> and \<^verbatim>\<open>filename2\<close>.\<close>

datatype os_error = OSError errno string "string option"

definition path_exists :: "filesystem \<Rightarrow> string \<Rightarrow> bool" where
  "path_exists fs p = (inode_of fs p \<noteq> None)"

definition os_stat :: "filesystem \<Rightarrow> string \<Rightarrow> os_error + nat" where
  "os_stat fs p =
     (case inode_of fs p of
        None \<Rightarrow> Inl (OSError ENOENT p None)
      | Some i \<Rightarrow> Inr i)"

text \<open>\<^verbatim>\<open>os.path.samefile\<close> stats both paths and raises when one does not exist.\<close>

definition samefile :: "filesystem \<Rightarrow> string \<Rightarrow> string \<Rightarrow> os_error + bool" where
  "samefile fs p1 p2 =
     (case os_stat fs p1 of
        Inl e \<Rightarrow> Inl e
      | Inr s1 \<Rightarrow>
          (case os_stat fs p2 of
             Inl e \<Rightarrow> Inl e
           | Inr s2 \<Rightarrow> Inr (s1 = s2)))"

text \<open>
  \<^verbatim>\<open>os.rename\<close> raises when the source does not exist and when the system refuses the
  rename.  Otherwise the target names the file and the source no longer does; renaming a
  file onto another name of the same file leaves the resolution of both names as it is.
\<close>

definition os_rename :: "filesystem \<Rightarrow> string \<Rightarrow> string \<Rightarrow> os_error + filesystem" where
  "os_rename fs src dst =
     (case inode_of fs src of
        None \<Rightarrow> Inl (OSError ENOENT src (Some dst))
      | Some i \<Rightarrow>
          (case rename_error fs src dst of
             Some n \<Rightarrow> Inl (OSError n src (Some dst))
           | None \<Rightarrow>
               if inode_of fs dst = Some i then Inr fs
               else Inr (fs\<lparr>inode_of := (inode_of fs)(src := None, dst \<mapsto> i)\<rparr>)))"

subsection \<open>The text of the log\<close>

definition nl :: string where
  "nl = [CHR 0x0A]"

definition quote :: string where
  "quote = [CHR 0x27]"

text \<open>The marks that start a log entry, byte for byte as the source file has them.\<close>

definition mark_warn :: string where
  "mark_warn = [CHR 0xE2, CHR 0x80, CHR 0x9A, CHR 0xC3, CHR 0xB6, CHR 0xE2, CHR 0x80, CHR 0xA0]"

definition mark_same :: string where
  "mark_same = [CHR 0xE2, CHR 0x80, CHR 0x9A, CHR 0xC3, CHR 0xB3, CHR 0xC3, CHR 0xA3]"

definition mark_fail :: string where
  "mark_fail = [CHR 0xE2, CHR 0x80, CHR 0x9A, CHR 0xC3, CHR 0xBA, CHR 0xC3, CHR 0xB3]"

definition mark_done :: string where
  "mark_done = [CHR 0xE2, CHR 0x80, CHR 0x9A, CHR 0xC3, CHR 0xBA, CHR 0xC3, CHR 0xAC]"

definition mark_to :: string where
  "mark_to = [CHR 0xE2, CHR 0x80, CHR 0x9A, CHR 0xC3, CHR 0x9C, CHR 0xC3, CHR 0xAD]"

definition errno_num :: "errno \<Rightarrow> nat" where
  "errno_num e =
     (case e of ENOENT \<Rightarrow> 2 | EACCES \<Rightarrow> 13 | EEXIST \<Rightarrow> 17 | EINVAL \<Rightarrow> 22 | ENAMETOOLONG \<Rightarrow> 36)"

definition strerror :: "errno \<Rightarrow> string" where
  "strerror e =
     (case e of
        ENOENT \<Rightarrow> ''No such file or directory''
      | EACCES \<Rightarrow> ''Permission denied''
      | EEXIST \<Rightarrow> ''File exists''
      | EINVAL \<Rightarrow> ''Invalid argument''
      | ENAMETOOLONG \<Rightarrow> ''File name too long'')"

text \<open>\<^verbatim>\<open>str(e)\<close> of an \<^verbatim>\<open>OSError\<close> (the file names in plain quotes).\<close>

definition str_error :: "os_error \<Rightarrow> string" where
  "str_error e =
     (case e of OSError n f f2 \<Rightarrow>
        ''[Errno '' @ str_nat (errno_num n) @ ''] '' @ strerror n @ '': '' @ quote @ f @ quote @
        (case f2 of None \<Rightarrow> [] | Some g \<Rightarrow> '' -> '' @ quote @ g @ quote))"

subsection \<open>The rename pass\<close>

text \<open>
  What \<^verbatim>\<open>on_continue\<close> hands to \<^verbatim>\<open>rename_files_from_excel\<close> (the two paths, the extension,
  the mode and the delimiter) and the two switches the pass reads from the window.
\<close>

record settings =
  excel_path :: string
  target_folder :: string
  file_ext :: string
  mode_var :: string
  delimiter_var :: string
  dry_run_var :: bool
  backup_var :: bool

text \<open>
  The variables of the loop: the name-to-path dictionary \<^verbatim>\<open>files_map\<close>, the three tallies
  and what has been written to the log so far (one element for each \<^verbatim>\<open>write\<close>), together
  with the state of the folder.
\<close>

record loop_state =
  files_map :: "string \<rightharpoonup> string"
  disk :: filesystem
  renamed_count :: nat
  error_count :: nat
  skipped_count :: nat
  log_file :: "string list"

text \<open>Which branch of the loop body a row took.\<close>

datatype outcome =
    Skipped_Empty_Key
  | Skipped_Not_Found
  | Skipped_No_Change
  | Error_Target_Exists
  | Renamed
  | Error_Rename os_error

datatype tally = Counted_Renamed | Counted_Error | Counted_Skipped

fun tally_of :: "outcome \<Rightarrow> tally" where
  "tally_of Skipped_Empty_Key = Counted_Skipped"
| "tally_of Skipped_Not_Found = Counted_Skipped"
| "tally_of Skipped_No_Change = Counted_Skipped"
| "tally_of Error_Target_Exists = Counted_Error"
| "tally_of Renamed = Counted_Renamed"
| "tally_of (Error_Rename e) = Counted_Error"

text \<open>\<^verbatim>\<open>files_map = {os.path.basename(p): p for p in files}\<close>: a later path wins.\<close>

definition files_map_of :: "string list \<Rightarrow> (string \<rightharpoonup> string)" where
  "files_map_of files = fold (\<lambda>p m. m(basename p \<mapsto> p)) files Map.empty"

text \<open>
  The \<^verbatim>\<open>try\<close> block of the loop body: the rename (unless this is a dry run), the log
  entry, the tally and the update of \<^verbatim>\<open>files_map\<close>; an exception of \<^verbatim>\<open>os.rename\<close> is caught
  and logged.
\<close>

definition try_rename ::
  "bool \<Rightarrow> string \<Rightarrow> string \<Rightarrow> string \<Rightarrow> string \<Rightarrow> string \<Rightarrow> loop_state \<Rightarrow> outcome \<times> loop_state" where
  "try_rename dry_run old_name new_name old_path new_path notes st =
     (case (if \<not> dry_run then os_rename (disk st) old_path new_path else Inr (disk st)) of
        Inr fs' \<Rightarrow>
          (Renamed,
           st\<lparr>disk := fs',
              log_file := log_file st @
                [mark_done @ '' '' @ old_name @ nl, ''  '' @ mark_to @ '' '' @ new_name @ nl] @
                (if notes \<noteq> [] then [''  User Note: '' @ notes @ nl] else []) @ [nl],
              renamed_count := renamed_count st + 1,
              files_map := (files_map st)(old_name := None, new_name \<mapsto> new_path)\<rparr>)
      | Inl e \<Rightarrow>
          (Error_Rename e,
           st\<lparr>log_file := log_file st @
                [mark_fail @ '' '' @ old_name @ nl, ''  ERROR: '' @ str_error e @ nl @ nl],
              error_count := error_count st + 1\<rparr>))"

text \<open>
  The body of the loop for the row at index \<open>idx\<close>.  \<^verbatim>\<open>Inl\<close> is an exception that leaves
  the loop: \<^verbatim>\<open>os.path.samefile\<close> is called outside the \<^verbatim>\<open>try\<close> block.
\<close>

definition row_step ::
  "settings \<Rightarrow> nat \<Rightarrow> row \<Rightarrow> loop_state \<Rightarrow> os_error + (outcome \<times> loop_state)" where
  "row_step s idx row st =
     (let rownum = idx + 1;
          current_filename = strip (Current_Filename row);
          notes = strip (Notes row)
      in if current_filename = [] then
           Inr (Skipped_Empty_Key,
                st\<lparr>log_file := log_file st @
                     [mark_warn @ '' Row '' @ str_nat rownum @ '': Empty Current_Filename (skipped)'' @ nl],
                   skipped_count := skipped_count st + 1\<rparr>)
         else
           (case files_map st current_filename of
              None \<Rightarrow>
                Inr (Skipped_Not_Found,
                     st\<lparr>log_file := log_file st @
                          [mark_warn @ '' Row '' @ str_nat rownum @ '': File not found: '' @ quote @
                           current_filename @ quote @ '' (skipped)'' @ nl],
                        skipped_count := skipped_count st + 1\<rparr>)
            | Some old_path \<Rightarrow>
                (let old_name = current_filename;
                     new_name = generate_new_name row old_name (mode_var s) (file_ext s)
                                  (Some (delimiter_var s));
                     new_path = join (dirname old_path) new_name
                 in if old_name = new_name then
                      Inr (Skipped_No_Change,
                           st\<lparr>log_file := log_file st @ [mark_same @ '' '' @ old_name @ '' (no change)'' @ nl],
                              skipped_count := skipped_count st + 1\<rparr>)
                    else if path_exists (disk st) new_path then
                      (case samefile (disk st) old_path new_path of
                         Inl e \<Rightarrow> Inl e
                       | Inr same \<Rightarrow>
                           if \<not> same then
                             Inr (Error_Target_Exists,
                                  st\<lparr>log_file := log_file st @
                                       [mark_fail @ '' '' @ old_name @ nl,
                                        ''  ERROR: Target exists: '' @ new_name @ nl @ nl],
                                     error_count := error_count st + 1\<rparr>)
                           else
                             Inr (try_rename (dry_run_var s) old_name new_name old_path new_path notes st))
                    else
                      Inr (try_rename (dry_run_var s) old_name new_name old_path new_path notes st))))"

text \<open>
  \<^verbatim>\<open>for idx, row in df.iterrows()\<close>: the rows in sheet order, numbered from \<open>idx\<close>.  The
  result is the branch taken by every row that was processed, the variables when the loop
  ended, and the exception that ended it early, if any.
\<close>

fun rename_loop ::
  "settings \<Rightarrow> nat \<Rightarrow> row list \<Rightarrow> loop_state \<Rightarrow> outcome list \<times> loop_state \<times> os_error option" where
  "rename_loop s idx [] st = ([], st, None)"
| "rename_loop s idx (row # rows) st =
     (case row_step s idx row st of
        Inl e \<Rightarrow> ([], st, Some e)
      | Inr (oc, st') \<Rightarrow>
          (case rename_loop s (idx + 1) rows st' of
             (ocs, st'', err) \<Rightarrow> (oc # ocs, st'', err)))"

text \<open>
  The clock readings and the folder \<^verbatim>\<open>create_backup\<close> returns, which the pass writes into
  the log and into the log's name.
\<close>

record run_env =
  backup_folder :: string
  timestamp :: string
  header_time :: string

definition log_header :: "settings \<Rightarrow> run_env \<Rightarrow> string list" where
  "log_header s env =
     (let backup_msg =
            (if backup_var s \<and> \<not> dry_run_var s
             then ''Backup: '' @ backup_folder env @ nl @ nl else [])
      in [''FILE RENAMER PRO V9 - Log File'' @ nl,
          replicate 70 CHR ''='' @ nl,
          ''Timestamp: '' @ header_time env @ nl @ nl,
          ''Excel: '' @ excel_path s @ nl,
          ''Target: '' @ target_folder s @ nl,
          ''Mode: '' @ mode_var s @ '' | Delimiter: '' @ quote @ delimiter_var s @ quote @
            '' | Extension: '' @ file_ext s @ nl,
          ''Matching: Strict Current_Filename (Column B) matching'' @ nl,
          backup_msg @ nl,
          replicate 70 CHR ''='' @ nl @ nl])"

definition log_summary :: "nat \<Rightarrow> nat \<Rightarrow> nat \<Rightarrow> string list" where
  "log_summary renamed errors skipped =
     [nl @ replicate 70 CHR ''='' @ nl,
      ''SUMMARY'' @ nl,
      replicate 70 CHR ''='' @ nl,
      ''Renamed: '' @ str_nat renamed @ '' | Errors: '' @ str_nat errors @
        '' | Skipped: '' @ str_nat skipped @ nl,
      ''Total processed: '' @ str_nat (renamed + errors + skipped) @ nl]"

text \<open>
  What a call of \<^verbatim>\<open>rename_files_from_excel\<close> leaves behind: its return value (the path of
  the log, or \<^verbatim>\<open>None\<close> after an exception), the text of the log, the folder, the tallies
  and the branch each processed row took.
\<close>

record run_result =
  returned :: "string option"
  log_text :: "string list"
  folder :: filesystem
  counts :: "nat \<times> nat \<times> nat"
  outcomes :: "outcome list"
  raised :: "os_error option"

text \<open>The state in which the pass enters its loop.\<close>

definition initial_state :: "settings \<Rightarrow> run_env \<Rightarrow> string list \<Rightarrow> filesystem \<Rightarrow> loop_state" where
  "initial_state s env files fs =
     \<lparr>files_map = files_map_of files, disk = fs, renamed_count = 0,
      error_count = 0, skipped_count = 0, log_file = log_header s env\<rparr>"

text \<open>
  \<^verbatim>\<open>rename_files_from_excel\<close>, from the point where the sheet has been read (\<open>df\<close>), the
  folder listed (\<open>files\<close>), the backup made and the log opened; \<open>fs\<close> is the folder at that
  point.  The pre-scan only sizes the progress bar and is left out with it.
\<close>

definition rename_files_from_excel ::
  "settings \<Rightarrow> run_env \<Rightarrow> row list \<Rightarrow> string list \<Rightarrow> filesystem \<Rightarrow> run_result" where
  "rename_files_from_excel s env df files fs =
     (let log_filename = ''rename_log_'' @ timestamp env @ ''.txt'';
          log_path = join (target_folder s) log_filename;
          st0 = initial_state s env files fs
      in case rename_loop s 0 df st0 of
           (ocs, st, None) \<Rightarrow>
             \<lparr>returned = Some log_path, log_text = log_file st @
                log_summary (renamed_count st) (error_count st) (skipped_count st),
              folder = disk st,
              counts = (renamed_count st, error_count st, skipped_count st),
              outcomes = ocs, raised = None\<rparr>
         | (ocs, st, Some e) \<Rightarrow>
             \<lparr>returned = None, log_text = log_file st, folder = disk st,
              counts = (renamed_count st, error_count st, skipped_count st),
              outcomes = ocs, raised = Some e\<rparr>)"

subsection \<open>The preview\<close>

text \<open>
  The loop of \<^verbatim>\<open>preview_changes\<close>: it keeps the set of names proposed so far and three
  counters, changes neither \<^verbatim>\<open>files_map\<close> nor the folder, and asks only whether the target
  path exists.
\<close>

record preview_state =
  proposed_new_names :: "string set"
  changes_count :: nat
  missing_files :: nat
  collisions :: nat

datatype preview_status =
    Preview_Empty_Key
  | Preview_Not_Found
  | Preview_Collision
  | Preview_Rename
  | Preview_No_Change

definition preview_row ::
  "settings \<Rightarrow> (string \<rightharpoonup> string) \<Rightarrow> filesystem \<Rightarrow> row \<Rightarrow> preview_state \<Rightarrow> preview_status \<times> preview_state" where
  "preview_row s fmap fs row st =
     (let current_filename = strip (Current_Filename row)
      in if current_filename = [] then
           (Preview_Empty_Key, st\<lparr>missing_files := missing_files st + 1\<rparr>)
         else
           (case fmap current_filename of
              None \<Rightarrow> (Preview_Not_Found, st\<lparr>missing_files := missing_files st + 1\<rparr>)
            | Some old_path \<Rightarrow>
                (let old_name = current_filename;
                     new_name = generate_new_name row old_name (mode_var s) (file_ext s)
                                  (Some (delimiter_var s))
                 in if old_name \<noteq> new_name then
                      (if new_name \<in> proposed_new_names st \<or>
                          path_exists fs (join (dirname old_path) new_name)
                       then (Preview_Collision,
                             st\<lparr>collisions := collisions st + 1,
                                changes_count := changes_count st + 1\<rparr>)
                       else (Preview_Rename,
                             st\<lparr>proposed_new_names := insert new_name (proposed_new_names st),
                                changes_count := changes_count st + 1\<rparr>))
                    else (Preview_No_Change, st))))"

fun preview_loop ::
  "settings \<Rightarrow> (string \<rightharpoonup> string) \<Rightarrow> filesystem \<Rightarrow> row list \<Rightarrow> preview_state \<Rightarrow> preview_status list \<times> preview_state" where
  "preview_loop s fmap fs [] st = ([], st)"
| "preview_loop s fmap fs (row # rows) st =
     (case preview_row s fmap fs row st of
        (ps, st') \<Rightarrow>
          (case preview_loop s fmap fs rows st' of
             (pss, st'') \<Rightarrow> (ps # pss, st'')))"

definition preview_changes ::
  "settings \<Rightarrow> row list \<Rightarrow> string list \<Rightarrow> filesystem \<Rightarrow> preview_status list \<times> preview_state" where
  "preview_changes s df files fs =
     preview_loop s (files_map_of files) fs df
       \<lparr>proposed_new_names = {}, changes_count = 0, missing_files = 0, collisions = 0\<rparr>"

subsection \<open>Names for what the loops compute\<close>

text \<open>
  The local variables of the loop body, as functions of the row: the join key
  \<^verbatim>\<open>current_filename\<close>, the generated \<^verbatim>\<open>new_name\<close> and the target path \<^verbatim>\<open>new_path\<close>.
\<close>

definition key_of :: "row \<Rightarrow> string" where
  "key_of row = strip (Current_Filename row)"

definition new_name_of :: "settings \<Rightarrow> row \<Rightarrow> string" where
  "new_name_of s row =
     generate_new_name row (key_of row) (mode_var s) (file_ext s) (Some (delimiter_var s))"

definition new_path_of :: "settings \<Rightarrow> row \<Rightarrow> string \<Rightarrow> string" where
  "new_path_of s row old_path = join (dirname old_path) (new_name_of s row)"

text \<open>How many of the rows took a branch that adds to a given tally.\<close>

fun count_tally :: "tally \<Rightarrow> outcome list \<Rightarrow> nat" where
  "count_tally t [] = 0"
| "count_tally t (oc # ocs) = (if tally_of oc = t then 1 else 0) + count_tally t ocs"

text \<open>
  In the preview, the name a row proposes: the generated name of a matched row, when it
  differs from the current name.
\<close>

definition proposes :: "settings \<Rightarrow> (string \<rightharpoonup> string) \<Rightarrow> row \<Rightarrow> string option" where
  "proposes s fmap row =
     (if key_of row = [] then None
      else (case fmap (key_of row) of
              None \<Rightarrow> None
            | Some old_path \<Rightarrow>
                if new_name_of s row = key_of row then None else Some (new_name_of s row)))"

subsection \<open>Well-formed folders\<close>

text \<open>
  A folder in which no file has two names, and a loop state whose dictionary names only
  paths that exist, no path twice, over such a folder.
\<close>

definition no_aliases :: "filesystem \<Rightarrow> bool" where
  "no_aliases fs = (\<forall>p q i. inode_of fs p = Some i \<and> inode_of fs q = Some i \<longrightarrow> p = q)"

definition well_listed :: "loop_state \<Rightarrow> bool" where
  "well_listed st =
     ((\<forall>k p. files_map st k = Some p \<longrightarrow> inode_of (disk st) p \<noteq> None) \<and>
      (\<forall>k k' p. files_map st k = Some p \<and> files_map st k' = Some p \<longrightarrow> k = k') \<and>
      no_aliases (disk st))"

subsection \<open>A small folder to run the pass on\<close>

text \<open>
  Settings for the folder \<^verbatim>\<open>/d\<close> in Replace mode with extension \<^verbatim>\<open>.pdf\<close> and no backup, a row
  that names a file and its new base name, and a folder given by its entries and by the
  renames the system refuses.
\<close>

definition demo_settings :: "bool \<Rightarrow> settings" where
  "demo_settings dry =
     \<lparr>excel_path = ''/d/index.xlsx'', target_folder = ''/d'', file_ext = ''.pdf'',
      mode_var = ''Replace'', delimiter_var = ''-'', dry_run_var = dry, backup_var = False\<rparr>"

definition demo_env :: run_env where
  "demo_env =
     \<lparr>backup_folder = ''/d/backup_20250101_120000'', timestamp = ''20250101_120000'',
      header_time = ''2025-01-01 12:00:00''\<rparr>"

definition demo_row :: "string \<Rightarrow> string \<Rightarrow> row" where
  "demo_row current new = \<lparr>Current_Filename = current, Prefix = '''', New_Filename = new, Notes = ''''\<rparr>"

definition demo_folder :: "(string \<times> nat) list \<Rightarrow> ((string \<times> string) \<times> errno) list \<Rightarrow> filesystem" where
  "demo_folder entries refusals =
     \<lparr>inode_of = map_of entries, rename_error = (\<lambda>src dst. map_of refusals (src, dst))\<rparr>"

section \<open>Properties\<close>

subsection \<open>Strings\<close>

lemma endswith_iff: "endswith s e \<longleftrightarrow> (\<exists>z. s = z @ e)"
proof
  assume "endswith s e"
  then have "s = take (length s - length e) s @ e"
    by (metis append_take_drop_id endswith_def)
  then show "\<exists>z. s = z @ e" ..
next
  assume "\<exists>z. s = z @ e"
  then show "endswith s e"
    by (auto simp: endswith_def)
qed

lemma endswith_append_self: "endswith (s @ e) e"
  by (simp add: endswith_def)

lemma endswith_twice: "endswith s (e @ e) \<Longrightarrow> endswith s e"
  by (auto simp: endswith_iff)

lemma endswith_append_twice: "endswith (s @ e) (e @ e) \<longleftrightarrow> endswith s e"
  by (auto simp: endswith_iff)

subsection \<open>The name generator\<close>

text \<open>
  C5.  In Prefix mode the generator follows the stated precedence: with a non-empty
  prefix the stem is prefix, delimiter and then the new base name (or, when that is
  empty, the matched file's name without its extension); with an empty prefix the stem is
  the new base name (or the matched file's stem) and the delimiter is not applied.  The
  final name is the stem with the extension, not duplicated.  The two examples of the
  specification follow: \<^verbatim>\<open>001-invoice.pdf\<close> and \<^verbatim>\<open>Report.pdf\<close>.
\<close>

theorem generate_new_name_prefix_mode:
  "generate_new_name row old_name ''Prefix'' ext (Some delimiter) =
     spec_final_name
       (if strip (Prefix row) \<noteq> []
        then strip (Prefix row) @ delimiter @
               (if strip (New_Filename row) \<noteq> [] then strip (New_Filename row)
                else fst (splitext old_name))
        else (if strip (New_Filename row) \<noteq> [] then strip (New_Filename row)
              else fst (splitext old_name)))
       ext
   \<and> generate_new_name (row\<lparr>Prefix := ''001'', New_Filename := ''''\<rparr>) ''invoice.pdf''
         ''Prefix'' ''.pdf'' (Some ''-'') = ''001-invoice.pdf''
   \<and> generate_new_name (row\<lparr>Prefix := '''', New_Filename := ''Report''\<rparr>) old_name
         ''Prefix'' ''.pdf'' (Some delimiter) = ''Report.pdf''"
proof (intro conjI)
  show "generate_new_name row old_name ''Prefix'' ext (Some delimiter) =
     spec_final_name
       (if strip (Prefix row) \<noteq> []
        then strip (Prefix row) @ delimiter @
               (if strip (New_Filename row) \<noteq> [] then strip (New_Filename row)
                else fst (splitext old_name))
        else (if strip (New_Filename row) \<noteq> [] then strip (New_Filename row)
              else fst (splitext old_name)))
       ext"
    by (simp add: generate_new_name_def spec_final_name_def Let_def)
next
  have stem: "fst (splitext ''invoice.pdf'') = ''invoice''"
    by (simp add: splitext_def Let_def skip_leading_dots.simps)
  have p: "strip ''001'' = ''001''" and n: "strip '''' = ''''"
    by code_simp+
  show "generate_new_name (row\<lparr>Prefix := ''001'', New_Filename := ''''\<rparr>) ''invoice.pdf''
         ''Prefix'' ''.pdf'' (Some ''-'') = ''001-invoice.pdf''"
    by (simp add: generate_new_name_def Let_def stem p n endswith_def)
next
  have p: "strip '''' = ''''" and n: "strip ''Report'' = ''Report''"
    by code_simp+
  show "generate_new_name (row\<lparr>Prefix := '''', New_Filename := ''Report''\<rparr>) old_name
         ''Prefix'' ''.pdf'' (Some delimiter) = ''Report.pdf''"
    by (simp add: generate_new_name_def Let_def p n endswith_def)
qed

text \<open>
  C6 (as amended).  For every row, mode, delimiter and extension the generated name is the
  result stem with the extension appended, unless the stem already ends with the
  extension, and then nothing is appended.  So the name always ends with the extension,
  and it ends with the extension twice exactly when the stem itself did: the generator
  never adds a second copy, and never removes one the user typed.
\<close>

theorem generate_new_name_extension:
  "generate_new_name row old_name mode ext (Some delimiter) =
     (let stem = spec_stem mode (strip (Prefix row)) (strip (New_Filename row)) delimiter old_name
      in if endswith stem ext then stem else stem @ ext)
   \<and> endswith (generate_new_name row old_name mode ext (Some delimiter)) ext
   \<and> (endswith (generate_new_name row old_name mode ext (Some delimiter)) (ext @ ext) \<longleftrightarrow>
        endswith (spec_stem mode (strip (Prefix row)) (strip (New_Filename row)) delimiter old_name)
          (ext @ ext))"
proof -
  define stem where
    "stem = spec_stem mode (strip (Prefix row)) (strip (New_Filename row)) delimiter old_name"
  have gen: "generate_new_name row old_name mode ext (Some delimiter) =
      (if endswith stem ext then stem else stem @ ext)"
    by (simp add: generate_new_name_def spec_stem_def stem_def Let_def)
  have ends: "endswith (if endswith stem ext then stem else stem @ ext) ext"
    by (simp add: endswith_append_self)
  have twice: "endswith (if endswith stem ext then stem else stem @ ext) (ext @ ext) \<longleftrightarrow>
      endswith stem (ext @ ext)"
    using endswith_twice [of stem ext] by (auto simp: endswith_append_twice)
  show ?thesis
    using gen ends twice by (simp add: stem_def Let_def)
qed

text \<open>
  C6 as stated fails where it says that the name ends with the extension exactly once: a
  new name typed as \<^verbatim>\<open>a.pdf.pdf\<close> is kept as it is, and ends with \<^verbatim>\<open>.pdf\<close> twice.
\<close>

theorem generate_new_name_double_extension:
  "generate_new_name \<lparr>Current_Filename = ''x.pdf'', Prefix = '''', New_Filename = ''a.pdf.pdf'',
      Notes = ''''\<rparr> ''x.pdf'' ''Replace'' ''.pdf'' (Some ''-'') = ''a.pdf.pdf''
   \<and> endswith (generate_new_name \<lparr>Current_Filename = ''x.pdf'', Prefix = '''',
      New_Filename = ''a.pdf.pdf'', Notes = ''''\<rparr> ''x.pdf'' ''Replace'' ''.pdf'' (Some ''-''))
        (''.pdf'' @ ''.pdf'')"
  by code_simp

text \<open>
  C10.  Outside Prefix mode (the Replace branch) the generated name depends neither on
  the row's Prefix cell nor on the delimiter: two calls that agree on the New_Filename
  cell, the matched name, the mode and the extension return the same name.
\<close>

theorem generate_new_name_replace_ignores_prefix:
  assumes "mode \<noteq> ''Prefix''" and "New_Filename row1 = New_Filename row2"
  shows "generate_new_name row1 old_name mode ext delimiter1 =
         generate_new_name row2 old_name mode ext delimiter2"
  using assms by (simp add: generate_new_name_def Let_def)

theorem generate_new_name_replace_ignores_prefix_witness:
  "generate_new_name \<lparr>Current_Filename = ''scan.jpg'', Prefix = ''001'', New_Filename = ''Holiday'',
      Notes = ''''\<rparr> ''scan.jpg'' ''Replace'' ''.jpg'' (Some ''-'') = ''Holiday.jpg''
   \<and> generate_new_name \<lparr>Current_Filename = ''scan.jpg'', Prefix = ''XYZ'', New_Filename = ''Holiday'',
      Notes = ''''\<rparr> ''scan.jpg'' ''Replace'' ''.jpg'' (Some ''_'') = ''Holiday.jpg''"
proof -
  have m: "''Replace'' \<noteq> ''Prefix''" by simp
  have v: "generate_new_name \<lparr>Current_Filename = ''scan.jpg'', Prefix = ''001'',
      New_Filename = ''Holiday'', Notes = ''''\<rparr> ''scan.jpg'' ''Replace'' ''.jpg'' (Some ''-'') =
      ''Holiday.jpg''"
    by code_simp
  show ?thesis
    using generate_new_name_replace_ignores_prefix [OF m, of
        "\<lparr>Current_Filename = ''scan.jpg'', Prefix = ''001'', New_Filename = ''Holiday'', Notes = ''''\<rparr>"
        "\<lparr>Current_Filename = ''scan.jpg'', Prefix = ''XYZ'', New_Filename = ''Holiday'', Notes = ''''\<rparr>"
        "''scan.jpg''" "''.jpg''" "Some ''-''" "Some ''_''"] v
    by simp
qed

subsection \<open>The body of the rename loop, branch by branch\<close>

lemma new_name_of_dry_run [simp]: "new_name_of (s\<lparr>dry_run_var := b\<rparr>) row = new_name_of s row"
  by (simp add: new_name_of_def)

lemma new_path_of_dry_run [simp]:
  "new_path_of (s\<lparr>dry_run_var := b\<rparr>) row old_path = new_path_of s row old_path"
  by (simp add: new_path_of_def)

lemma row_step_empty_key:
  assumes "key_of row = []"
  shows "row_step s idx row st =
     Inr (Skipped_Empty_Key,
          st\<lparr>log_file := log_file st @
               [mark_warn @ '' Row '' @ str_nat (idx + 1) @ '': Empty Current_Filename (skipped)'' @ nl],
             skipped_count := skipped_count st + 1\<rparr>)"
  using assms by (simp add: row_step_def key_of_def Let_def)

lemma row_step_not_found:
  assumes "key_of row \<noteq> []" and "files_map st (key_of row) = None"
  shows "row_step s idx row st =
     Inr (Skipped_Not_Found,
          st\<lparr>log_file := log_file st @
               [mark_warn @ '' Row '' @ str_nat (idx + 1) @ '': File not found: '' @ quote @
                key_of row @ quote @ '' (skipped)'' @ nl],
             skipped_count := skipped_count st + 1\<rparr>)"
  using assms by (simp add: row_step_def key_of_def Let_def)

lemma row_step_no_change:
  assumes "key_of row \<noteq> []" and "files_map st (key_of row) = Some old_path"
    and "new_name_of s row = key_of row"
  shows "row_step s idx row st =
     Inr (Skipped_No_Change,
          st\<lparr>log_file := log_file st @ [mark_same @ '' '' @ key_of row @ '' (no change)'' @ nl],
             skipped_count := skipped_count st + 1\<rparr>)"
  using assms by (simp add: row_step_def key_of_def new_name_of_def Let_def)

lemma row_step_target_exists:
  assumes "key_of row \<noteq> []" and "files_map st (key_of row) = Some old_path"
    and "new_name_of s row \<noteq> key_of row"
    and "path_exists (disk st) (new_path_of s row old_path)"
    and "samefile (disk st) old_path (new_path_of s row old_path) = Inr False"
  shows "row_step s idx row st =
     Inr (Error_Target_Exists,
          st\<lparr>log_file := log_file st @
               [mark_fail @ '' '' @ key_of row @ nl,
                ''  ERROR: Target exists: '' @ new_name_of s row @ nl @ nl],
             error_count := error_count st + 1\<rparr>)"
  using assms by (simp add: row_step_def key_of_def new_name_of_def new_path_of_def Let_def)

lemma row_step_abort:
  assumes "key_of row \<noteq> []" and "files_map st (key_of row) = Some old_path"
    and "new_name_of s row \<noteq> key_of row"
    and "path_exists (disk st) (new_path_of s row old_path)"
    and "samefile (disk st) old_path (new_path_of s row old_path) = Inl e"
  shows "row_step s idx row st = Inl e"
  using assms by (simp add: row_step_def key_of_def new_name_of_def new_path_of_def Let_def)

lemma row_step_try_rename:
  assumes "key_of row \<noteq> []" and "files_map st (key_of row) = Some old_path"
    and "new_name_of s row \<noteq> key_of row"
    and "\<not> path_exists (disk st) (new_path_of s row old_path) \<or>
         samefile (disk st) old_path (new_path_of s row old_path) = Inr True"
  shows "row_step s idx row st =
     Inr (try_rename (dry_run_var s) (key_of row) (new_name_of s row) old_path
            (new_path_of s row old_path) (strip (Notes row)) st)"
  using assms
  by (auto simp add: row_step_def key_of_def new_name_of_def new_path_of_def Let_def)

text \<open>Every row takes exactly one of the six branches.\<close>

lemma row_step_cases [case_names Empty_Key Not_Found No_Change Target_Exists Abort Try_Rename]:
  obtains
    "key_of row = []"
  | "key_of row \<noteq> []" "files_map st (key_of row) = None"
  | old_path where "key_of row \<noteq> []" "files_map st (key_of row) = Some old_path"
      "new_name_of s row = key_of row"
  | old_path where "key_of row \<noteq> []" "files_map st (key_of row) = Some old_path"
      "new_name_of s row \<noteq> key_of row"
      "path_exists (disk st) (new_path_of s row old_path)"
      "samefile (disk st) old_path (new_path_of s row old_path) = Inr False"
  | old_path e where "key_of row \<noteq> []" "files_map st (key_of row) = Some old_path"
      "new_name_of s row \<noteq> key_of row"
      "path_exists (disk st) (new_path_of s row old_path)"
      "samefile (disk st) old_path (new_path_of s row old_path) = Inl e"
  | old_path where "key_of row \<noteq> []" "files_map st (key_of row) = Some old_path"
      "new_name_of s row \<noteq> key_of row"
      "\<not> path_exists (disk st) (new_path_of s row old_path) \<or>
       samefile (disk st) old_path (new_path_of s row old_path) = Inr True"
proof (cases "key_of row = []")
  case True
  then show ?thesis by (rule that(1))
next
  case key: False
  show ?thesis
  proof (cases "files_map st (key_of row)")
    case None
    with key show ?thesis by (rule that(2))
  next
    case (Some old_path)
    show ?thesis
    proof (cases "new_name_of s row = key_of row")
      case True
      with key Some show ?thesis by (rule that(3))
    next
      case new: False
      show ?thesis
      proof (cases "path_exists (disk st) (new_path_of s row old_path)")
        case False
        then have "\<not> path_exists (disk st) (new_path_of s row old_path) \<or>
            samefile (disk st) old_path (new_path_of s row old_path) = Inr True"
          by simp
        with key Some new show ?thesis by (rule that(6))
      next
        case ex: True
        show ?thesis
        proof (cases "samefile (disk st) old_path (new_path_of s row old_path)")
          case (Inl e)
          with key Some new ex show ?thesis by (rule that(5))
        next
          case (Inr same)
          show ?thesis
          proof (cases same)
            case True
            with Inr have "\<not> path_exists (disk st) (new_path_of s row old_path) \<or>
                samefile (disk st) old_path (new_path_of s row old_path) = Inr True"
              by simp
            with key Some new show ?thesis by (rule that(6))
          next
            case False
            with Inr have "samefile (disk st) old_path (new_path_of s row old_path) = Inr False"
              by simp
            with key Some new ex show ?thesis by (rule that(4))
          qed
        qed
      qed
    qed
  qed
qed

subsection \<open>The \<^verbatim>\<open>try\<close> block\<close>

lemma try_rename_dry_run:
  "try_rename True old_name new_name old_path new_path notes st =
     (Renamed,
      st\<lparr>log_file := log_file st @
           [mark_done @ '' '' @ old_name @ nl, ''  '' @ mark_to @ '' '' @ new_name @ nl] @
           (if notes \<noteq> [] then [''  User Note: '' @ notes @ nl] else []) @ [nl],
         renamed_count := renamed_count st + 1,
         files_map := (files_map st)(old_name := None, new_name \<mapsto> new_path)\<rparr>)"
  by (simp add: try_rename_def)

lemma try_rename_performed:
  assumes "os_rename (disk st) old_path new_path = Inr fs'"
  shows "try_rename False old_name new_name old_path new_path notes st =
     (Renamed,
      st\<lparr>disk := fs',
         log_file := log_file st @
           [mark_done @ '' '' @ old_name @ nl, ''  '' @ mark_to @ '' '' @ new_name @ nl] @
           (if notes \<noteq> [] then [''  User Note: '' @ notes @ nl] else []) @ [nl],
         renamed_count := renamed_count st + 1,
         files_map := (files_map st)(old_name := None, new_name \<mapsto> new_path)\<rparr>)"
  using assms by (simp add: try_rename_def)

lemma try_rename_failed:
  assumes "os_rename (disk st) old_path new_path = Inl e"
  shows "try_rename False old_name new_name old_path new_path notes st =
     (Error_Rename e,
      st\<lparr>log_file := log_file st @
           [mark_fail @ '' '' @ old_name @ nl, ''  ERROR: '' @ str_error e @ nl @ nl],
         error_count := error_count st + 1\<rparr>)"
  using assms by (simp add: try_rename_def)

lemma try_rename_counts:
  assumes "try_rename dry old_name new_name old_path new_path notes st = (oc, st')"
  shows "renamed_count st' = renamed_count st + (if tally_of oc = Counted_Renamed then 1 else 0)
       \<and> error_count st' = error_count st + (if tally_of oc = Counted_Error then 1 else 0)
       \<and> skipped_count st' = skipped_count st + (if tally_of oc = Counted_Skipped then 1 else 0)"
  using assms by (auto simp: try_rename_def split: sum.splits if_splits)

lemma try_rename_log:
  assumes "try_rename dry old_name new_name old_path new_path notes st = (oc, st')"
  shows "\<exists>entry. entry \<noteq> [] \<and> log_file st' = log_file st @ entry"
  using assms by (auto simp: try_rename_def split: sum.splits if_splits)


subsection \<open>One row: tallies, log and folder\<close>

lemma row_step_counts:
  assumes "row_step s idx row st = Inr (oc, st')"
  shows "renamed_count st' = renamed_count st + (if tally_of oc = Counted_Renamed then 1 else 0)
       \<and> error_count st' = error_count st + (if tally_of oc = Counted_Error then 1 else 0)
       \<and> skipped_count st' = skipped_count st + (if tally_of oc = Counted_Skipped then 1 else 0)"
proof (cases rule: row_step_cases [where row = row and st = st and s = s])
  case Empty_Key
  with assms show ?thesis by (auto simp: row_step_empty_key)
next
  case Not_Found
  with assms show ?thesis by (auto simp: row_step_not_found)
next
  case (No_Change old_path)
  with assms show ?thesis by (auto simp: row_step_no_change)
next
  case (Target_Exists old_path)
  with assms show ?thesis by (auto simp: row_step_target_exists)
next
  case (Abort old_path e)
  with assms show ?thesis by (simp add: row_step_abort)
next
  case (Try_Rename old_path)
  with assms try_rename_counts show ?thesis by (simp add: row_step_try_rename)
qed

lemma row_step_log:
  assumes "row_step s idx row st = Inr (oc, st')"
  shows "\<exists>entry. entry \<noteq> [] \<and> log_file st' = log_file st @ entry"
proof (cases rule: row_step_cases [where row = row and st = st and s = s])
  case Empty_Key
  with assms show ?thesis by (auto simp: row_step_empty_key)
next
  case Not_Found
  with assms show ?thesis by (auto simp: row_step_not_found)
next
  case (No_Change old_path)
  with assms show ?thesis by (auto simp: row_step_no_change)
next
  case (Target_Exists old_path)
  with assms show ?thesis by (auto simp: row_step_target_exists)
next
  case (Abort old_path e)
  with assms show ?thesis by (simp add: row_step_abort)
next
  case (Try_Rename old_path)
  with assms try_rename_log show ?thesis by (simp add: row_step_try_rename)
qed


subsection \<open>The whole loop: tallies, log and folder\<close>

lemma count_tally_total:
  "count_tally Counted_Renamed ocs + count_tally Counted_Error ocs +
   count_tally Counted_Skipped ocs = length ocs"
proof (induction ocs)
  case Nil
  show ?case by simp
next
  case (Cons oc ocs)
  then show ?case by (cases "tally_of oc") simp_all
qed

lemma rename_loop_counts:
  assumes "rename_loop s idx rows st = (ocs, st', err)"
  shows "renamed_count st' = renamed_count st + count_tally Counted_Renamed ocs
       \<and> error_count st' = error_count st + count_tally Counted_Error ocs
       \<and> skipped_count st' = skipped_count st + count_tally Counted_Skipped ocs"
  using assms
proof (induction rows arbitrary: idx st ocs st' err)
  case Nil
  then show ?case by simp
next
  case (Cons row rows)
  show ?case
  proof (cases "row_step s idx row st")
    case (Inl e)
    with Cons.prems show ?thesis by simp
  next
    case (Inr step)
    obtain oc st1 where step: "step = (oc, st1)" by (cases step)
    obtain ocs1 st2 err1 where rest: "rename_loop s (idx + 1) rows st1 = (ocs1, st2, err1)"
      by (cases "rename_loop s (idx + 1) rows st1")
    from Cons.prems Inr step rest have res: "ocs = oc # ocs1" "st' = st2"
      by simp_all
    from Inr step have one: "row_step s idx row st = Inr (oc, st1)" by simp
    show ?thesis
      using row_step_counts [OF one] Cons.IH [OF rest] res by simp
  qed
qed

lemma rename_loop_length:
  assumes "rename_loop s idx rows st = (ocs, st', err)"
  shows "(err = None \<longrightarrow> length ocs = length rows) \<and> (err \<noteq> None \<longrightarrow> length ocs < length rows)"
  using assms
proof (induction rows arbitrary: idx st ocs st' err)
  case Nil
  then show ?case by auto
next
  case (Cons row rows)
  show ?case
  proof (cases "row_step s idx row st")
    case (Inl e)
    with Cons.prems show ?thesis by auto
  next
    case (Inr step)
    obtain oc st1 where step: "step = (oc, st1)" by (cases step)
    obtain ocs1 st2 err1 where rest: "rename_loop s (idx + 1) rows st1 = (ocs1, st2, err1)"
      by (cases "rename_loop s (idx + 1) rows st1")
    from Cons.prems Inr step rest have res: "ocs = oc # ocs1" "err = err1"
      by simp_all
    show ?thesis
      using Cons.IH [OF rest] res by simp
  qed
qed

lemma rename_loop_log:
  assumes "rename_loop s idx rows st = (ocs, st', err)"
  shows "\<exists>entries. length entries = length ocs \<and> [] \<notin> set entries \<and>
           log_file st' = log_file st @ concat entries"
  using assms
proof (induction rows arbitrary: idx st ocs st' err)
  case Nil
  then have "length [] = length ocs \<and> [] \<notin> set ([] :: string list list) \<and>
      log_file st' = log_file st @ concat []"
    by simp
  then show ?case by blast
next
  case (Cons row rows)
  show ?case
  proof (cases "row_step s idx row st")
    case (Inl e)
    with Cons.prems have "length [] = length ocs \<and> [] \<notin> set ([] :: string list list) \<and>
        log_file st' = log_file st @ concat []"
      by simp
    then show ?thesis by blast
  next
    case (Inr step)
    obtain oc st1 where step: "step = (oc, st1)" by (cases step)
    obtain ocs1 st2 err1 where rest: "rename_loop s (idx + 1) rows st1 = (ocs1, st2, err1)"
      by (cases "rename_loop s (idx + 1) rows st1")
    from Cons.prems Inr step rest have res: "ocs = oc # ocs1" "st' = st2"
      by simp_all
    from Inr step have one: "row_step s idx row st = Inr (oc, st1)" by simp
    from row_step_log [OF one] obtain entry where
      entry: "entry \<noteq> []" "log_file st1 = log_file st @ entry" by blast
    from Cons.IH [OF rest] obtain entries where
      entries: "length entries = length ocs1" "[] \<notin> set entries"
        "log_file st2 = log_file st1 @ concat entries" by blast
    from entry entries res have "length (entry # entries) = length ocs \<and>
        [] \<notin> set (entry # entries) \<and> log_file st' = log_file st @ concat (entry # entries)"
      by auto
    then show ?thesis by blast
  qed
qed


text \<open>The pass, in terms of its loop.\<close>

lemma rename_files_from_excel_loop:
  assumes "rename_loop s 0 df (initial_state s env files fs) = (ocs, st, err)"
  shows "outcomes (rename_files_from_excel s env df files fs) = ocs"
    and "raised (rename_files_from_excel s env df files fs) = err"
    and "folder (rename_files_from_excel s env df files fs) = disk st"
    and "counts (rename_files_from_excel s env df files fs) =
           (renamed_count st, error_count st, skipped_count st)"
    and "log_text (rename_files_from_excel s env df files fs) =
           log_file st @
           (if err = None
            then log_summary (renamed_count st) (error_count st) (skipped_count st) else [])"
    and "returned (rename_files_from_excel s env df files fs) =
           (if err = None
            then Some (join (target_folder s) (''rename_log_'' @ timestamp env @ ''.txt''))
            else None)"
  using assms
  by (cases err; simp add: rename_files_from_excel_def initial_state_def Let_def)+

subsection \<open>Matching and collisions, row by row\<close>

lemma files_map_of_Some:
  "fold (\<lambda>p m. m(basename p \<mapsto> p)) files m0 k = Some q \<Longrightarrow>
     (q \<in> set files \<and> basename q = k) \<or> m0 k = Some q"
proof (induction files arbitrary: m0)
  case Nil
  then show ?case by simp
next
  case (Cons a files)
  from Cons.prems have "fold (\<lambda>p m. m(basename p \<mapsto> p)) files (m0(basename a \<mapsto> a)) k = Some q"
    by (simp only: fold.simps comp_apply)
  from Cons.IH [OF this] show ?case
    by (auto split: if_splits)
qed

lemma files_map_of_None:
  "fold (\<lambda>p m. m(basename p \<mapsto> p)) files m0 k = None \<longleftrightarrow>
     (k \<notin> basename ` set files \<and> m0 k = None)"
proof (induction files arbitrary: m0)
  case Nil
  show ?case by simp
next
  case (Cons a files)
  have "fold (\<lambda>p m. m(basename p \<mapsto> p)) (a # files) m0 k =
      fold (\<lambda>p m. m(basename p \<mapsto> p)) files (m0(basename a \<mapsto> a)) k"
    by (simp only: fold.simps comp_apply)
  with Cons.IH [of "m0(basename a \<mapsto> a)"] show ?case
    by auto
qed

lemma files_map_of_listed:
  "files_map_of files k = Some q \<Longrightarrow> q \<in> set files \<and> basename q = k"
  using files_map_of_Some [of files Map.empty k q] by (simp add: files_map_of_def)

lemma files_map_of_unlisted:
  "files_map_of files k = None \<longleftrightarrow> k \<notin> basename ` set files"
  using files_map_of_None [of files Map.empty k] by (simp add: files_map_of_def)

text \<open>The branch of the row at position \<open>i\<close> is the one its step takes in some state.\<close>

lemma rename_loop_nth:
  assumes "rename_loop s idx rows st = (ocs, st', err)" and "i < length ocs"
  shows "\<exists>sti sti'. row_step s (idx + i) (rows ! i) sti = Inr (ocs ! i, sti')"
  using assms
proof (induction rows arbitrary: idx st ocs st' err i)
  case Nil
  then show ?case by simp
next
  case (Cons row rows)
  show ?case
  proof (cases "row_step s idx row st")
    case (Inl e)
    with Cons.prems show ?thesis by simp
  next
    case (Inr step)
    obtain oc st1 where step: "step = (oc, st1)" by (cases step)
    obtain ocs1 st2 err1 where rest: "rename_loop s (idx + 1) rows st1 = (ocs1, st2, err1)"
      by (cases "rename_loop s (idx + 1) rows st1")
    from Cons.prems Inr step rest have res: "ocs = oc # ocs1"
      by simp
    from Inr step have one: "row_step s idx row st = Inr (oc, st1)" by simp
    show ?thesis
    proof (cases i)
      case 0
      with one res show ?thesis by auto
    next
      case (Suc j)
      with Cons.prems(2) res have "j < length ocs1" by simp
      from Cons.IH [OF rest this] Suc res show ?thesis by simp
    qed
  qed
qed

text \<open>
  A matched row.  When the generated name differs from the current name, an entry exists
  at the target path and \<^verbatim>\<open>os.path.samefile\<close> returns false (the file being renamed is on
  disk and the entry is another file), the row is recorded as the error ``Target exists''
  and nothing else changes (no rename, the dictionary untouched).  When the generated name
  equals the current name the row is recorded as ``no change'' and counted as skipped,
  never as a collision.
\<close>

lemma collision_and_no_change:
  assumes "key_of row \<noteq> []" and "files_map st (key_of row) = Some old_path"
  shows "(new_name_of s row \<noteq> key_of row \<and>
          path_exists (disk st) (new_path_of s row old_path) \<and>
          samefile (disk st) old_path (new_path_of s row old_path) = Inr False \<longrightarrow>
            row_step s idx row st =
              Inr (Error_Target_Exists,
                   st\<lparr>log_file := log_file st @
                        [mark_fail @ '' '' @ key_of row @ nl,
                         ''  ERROR: Target exists: '' @ new_name_of s row @ nl @ nl],
                      error_count := error_count st + 1\<rparr>))
       \<and> (new_name_of s row = key_of row \<longrightarrow>
            row_step s idx row st =
              Inr (Skipped_No_Change,
                   st\<lparr>log_file := log_file st @
                        [mark_same @ '' '' @ key_of row @ '' (no change)'' @ nl],
                      skipped_count := skipped_count st + 1\<rparr>))"
  using assms row_step_target_exists [of row st old_path s idx]
    row_step_no_change [of row st old_path s idx]
  by blast

lemma collision_and_no_change_example:
  "(case row_step (demo_settings False) 0 (demo_row ''a.pdf'' ''c'')
           (initial_state (demo_settings False) demo_env [''/d/a.pdf'', ''/d/c.pdf'']
              (demo_folder [(''/d/a.pdf'', 1), (''/d/c.pdf'', 2)] [])) of
      Inl e \<Rightarrow> False
    | Inr (oc, st') \<Rightarrow>
        oc = Error_Target_Exists \<and> error_count st' = 1 \<and> renamed_count st' = 0 \<and>
        inode_of (disk st') ''/d/a.pdf'' = Some 1 \<and> inode_of (disk st') ''/d/c.pdf'' = Some 2)
   \<and> (case row_step (demo_settings False) 0 (demo_row ''a.pdf'' ''a'')
           (initial_state (demo_settings False) demo_env [''/d/a.pdf'', ''/d/c.pdf'']
              (demo_folder [(''/d/a.pdf'', 1), (''/d/c.pdf'', 2)] [])) of
      Inl e \<Rightarrow> False
    | Inr (oc, st') \<Rightarrow> oc = Skipped_No_Change \<and> skipped_count st' = 1 \<and> error_count st' = 0)"
proof -
  let ?s = "demo_settings False"
  let ?st = "initial_state ?s demo_env [''/d/a.pdf'', ''/d/c.pdf'']
               (demo_folder [(''/d/a.pdf'', 1), (''/d/c.pdf'', 2)] [])"
  have key1: "key_of (demo_row ''a.pdf'' ''c'') \<noteq> []"
    and key2: "key_of (demo_row ''a.pdf'' ''a'') \<noteq> []"
    by code_simp+
  have m1: "files_map ?st (key_of (demo_row ''a.pdf'' ''c'')) = Some ''/d/a.pdf''"
    and m2: "files_map ?st (key_of (demo_row ''a.pdf'' ''a'')) = Some ''/d/a.pdf''"
    by code_simp+
  have differs: "new_name_of ?s (demo_row ''a.pdf'' ''c'') \<noteq> key_of (demo_row ''a.pdf'' ''c'')"
    by code_simp
  have ex: "path_exists (disk ?st) (new_path_of ?s (demo_row ''a.pdf'' ''c'') ''/d/a.pdf'')"
    by code_simp
  have other: "samefile (disk ?st) ''/d/a.pdf''
      (new_path_of ?s (demo_row ''a.pdf'' ''c'') ''/d/a.pdf'') = Inr False"
    by code_simp
  have same: "new_name_of ?s (demo_row ''a.pdf'' ''a'') = key_of (demo_row ''a.pdf'' ''a'')"
    by code_simp
  from collision_and_no_change [OF key1 m1, of ?s 0] differs ex other
  have r1: "row_step ?s 0 (demo_row ''a.pdf'' ''c'') ?st =
      Inr (Error_Target_Exists,
           ?st\<lparr>log_file := log_file ?st @
                [mark_fail @ '' '' @ key_of (demo_row ''a.pdf'' ''c'') @ nl,
                 ''  ERROR: Target exists: '' @ new_name_of ?s (demo_row ''a.pdf'' ''c'') @ nl @ nl],
              error_count := error_count ?st + 1\<rparr>)"
    by blast
  from collision_and_no_change [OF key2 m2, of ?s 0] same
  have r2: "row_step ?s 0 (demo_row ''a.pdf'' ''a'') ?st =
      Inr (Skipped_No_Change,
           ?st\<lparr>log_file := log_file ?st @
                [mark_same @ '' '' @ key_of (demo_row ''a.pdf'' ''a'') @ '' (no change)'' @ nl],
              skipped_count := skipped_count ?st + 1\<rparr>)"
    by blast
  show ?thesis
    unfolding r1 r2 by (simp add: initial_state_def demo_folder_def)
qed

text \<open>
  C3.  A matched row whose generated name differs from its current name and names an entry
  of the folder that is not the file being renamed is to be recorded as the error
  ``Target exists''.  A dry run does not do so when an earlier row of the pass has taken
  the file for a rename.  Row 1 renames \<^verbatim>\<open>a.pdf\<close> to \<^verbatim>\<open>b.pdf\<close> and row 2 renames \<^verbatim>\<open>b.pdf\<close> to
  \<^verbatim>\<open>c.pdf\<close>, which is in the folder.  After row 1 the dictionary maps \<^verbatim>\<open>b.pdf\<close> to a path
  that is not on disk, since nothing was renamed.  Row 2 is matched, its target exists and
  is certainly not the file being renamed, and \<^verbatim>\<open>os.path.samefile\<close> (line 829, outside the
  \<^verbatim>\<open>try\<close> block) raises: the row is not recorded as an error and the pass ends there.  The
  live pass over the same input records ``Target exists'' for row 2.
\<close>

theorem collision_check_aborts_dry_run:
  "(let s = demo_settings True;
        st1 = fst (snd (rename_loop s 0 [demo_row ''a.pdf'' ''b'']
                (initial_state s demo_env [''/d/a.pdf'', ''/d/c.pdf'']
                   (demo_folder [(''/d/a.pdf'', 1), (''/d/c.pdf'', 2)] []))));
        row = demo_row ''b.pdf'' ''c''
    in files_map st1 (key_of row) = Some ''/d/b.pdf''
     \<and> new_name_of s row = ''c.pdf''
     \<and> new_path_of s row ''/d/b.pdf'' = ''/d/c.pdf''
     \<and> inode_of (disk st1) ''/d/c.pdf'' = Some 2
     \<and> inode_of (disk st1) ''/d/b.pdf'' = None
     \<and> (case row_step s 1 row st1 of
           Inl e \<Rightarrow> e = OSError ENOENT ''/d/b.pdf'' None
         | Inr res \<Rightarrow> False))
   \<and> outcomes (rename_files_from_excel (demo_settings True) demo_env
        [demo_row ''a.pdf'' ''b'', demo_row ''b.pdf'' ''c''] [''/d/a.pdf'', ''/d/c.pdf'']
        (demo_folder [(''/d/a.pdf'', 1), (''/d/c.pdf'', 2)] [])) = [Renamed]
   \<and> outcomes (rename_files_from_excel (demo_settings False) demo_env
        [demo_row ''a.pdf'' ''b'', demo_row ''b.pdf'' ''c''] [''/d/a.pdf'', ''/d/c.pdf'']
        (demo_folder [(''/d/a.pdf'', 1), (''/d/c.pdf'', 2)] [])) = [Renamed, Error_Target_Exists]"
  by code_simp

text \<open>
  What a row does to the dictionary: nothing, unless the row is taken for a rename; then
  the old name leaves it and the new name enters it.
\<close>

lemma row_step_files_map:
  assumes "row_step s idx row st = Inr (oc, st')"
  shows "(oc \<noteq> Renamed \<longrightarrow> files_map st' = files_map st)
       \<and> (oc = Renamed \<longrightarrow>
            (\<exists>old_path. files_map st (key_of row) = Some old_path \<and>
               files_map st' =
                 (files_map st)(key_of row := None,
                    new_name_of s row \<mapsto> new_path_of s row old_path)))"
proof (cases rule: row_step_cases [where row = row and st = st and s = s])
  case Empty_Key
  with assms show ?thesis by (auto simp: row_step_empty_key)
next
  case Not_Found
  with assms show ?thesis by (auto simp: row_step_not_found)
next
  case (No_Change p)
  with assms show ?thesis by (auto simp: row_step_no_change)
next
  case (Target_Exists p)
  with assms show ?thesis by (auto simp: row_step_target_exists)
next
  case (Abort p e)
  with assms show ?thesis by (simp add: row_step_abort)
next
  case (Try_Rename p)
  with assms have "try_rename (dry_run_var s) (key_of row) (new_name_of s row) p
      (new_path_of s row p) (strip (Notes row)) st = (oc, st')"
    by (simp add: row_step_try_rename)
  with Try_Rename(2) show ?thesis
    by (auto simp: try_rename_def split: sum.splits if_splits)
qed

lemma row_step_not_found_iff:
  assumes "row_step s idx row st = Inr (oc, st')"
  shows "oc = Skipped_Not_Found \<longleftrightarrow> key_of row \<noteq> [] \<and> files_map st (key_of row) = None"
proof (cases rule: row_step_cases [where row = row and st = st and s = s])
  case Empty_Key
  with assms show ?thesis by (auto simp: row_step_empty_key)
next
  case Not_Found
  with assms show ?thesis by (auto simp: row_step_not_found)
next
  case (No_Change p)
  with assms show ?thesis by (auto simp: row_step_no_change)
next
  case (Target_Exists p)
  with assms show ?thesis by (auto simp: row_step_target_exists)
next
  case (Abort p e)
  with assms show ?thesis by (simp add: row_step_abort)
next
  case (Try_Rename p)
  with assms show ?thesis
    by (auto simp: row_step_try_rename try_rename_def split: sum.splits if_splits)
qed

text \<open>Before the first rename of a pass the rows are looked up in the dictionary it started with.\<close>

lemma rename_loop_nth_before_rename:
  assumes "rename_loop s idx rows st = (ocs, st', err)" and "i < length ocs"
    and "Renamed \<notin> set (take i ocs)"
  shows "\<exists>sti sti'. row_step s (idx + i) (rows ! i) sti = Inr (ocs ! i, sti') \<and>
           files_map sti = files_map st"
  using assms
proof (induction rows arbitrary: idx st ocs st' err i)
  case Nil
  then show ?case by simp
next
  case (Cons row rows)
  show ?case
  proof (cases "row_step s idx row st")
    case (Inl e)
    with Cons.prems show ?thesis by simp
  next
    case (Inr step)
    obtain oc st1 where step: "step = (oc, st1)" by (cases step)
    obtain ocs1 st2 err1 where rest: "rename_loop s (idx + 1) rows st1 = (ocs1, st2, err1)"
      by (cases "rename_loop s (idx + 1) rows st1")
    from Cons.prems Inr step rest have res: "ocs = oc # ocs1"
      by simp
    from Inr step have one: "row_step s idx row st = Inr (oc, st1)" by simp
    show ?thesis
    proof (cases i)
      case 0
      with one res show ?thesis by auto
    next
      case (Suc j)
      with Cons.prems(2,3) res have j: "j < length ocs1" and clean: "Renamed \<notin> set (take j ocs1)"
        and other: "oc \<noteq> Renamed"
        by auto
      from row_step_files_map [OF one] other have same: "files_map st1 = files_map st"
        by simp
      from Cons.IH [OF rest j clean] Suc res same show ?thesis by simp
    qed
  qed
qed

text \<open>
  C4 (as amended).  A row is matched by looking its key (the stripped Current_Filename
  cell) up in the name-to-path dictionary of the pass: the lookup is string equality, and
  neither the row's position nor its other cells take part.  A row with an empty key is
  skipped as ``Empty Current_Filename'' wherever it stands in the sheet; a row whose
  non-empty key is not in the dictionary is skipped as ``File not found''.  Both only add a
  log entry and one to the skipped tally: the folder and the dictionary stay as they are.
  A row whose key is in the dictionary is never skipped for either reason.  The dictionary
  holds exactly the base names of the listed files when the pass starts, and only a row
  taken for a rename changes it: the old name leaves it and the new name enters it.  So
  before the first rename of a pass a row with a non-empty key is skipped as ``File not
  found'' exactly when its key is no listed base name.
\<close>

theorem matching_by_exact_key:
  "(key_of row = [] \<longrightarrow>
      row_step s idx row st =
        Inr (Skipped_Empty_Key,
             st\<lparr>log_file := log_file st @
                  [mark_warn @ '' Row '' @ str_nat (idx + 1) @
                   '': Empty Current_Filename (skipped)'' @ nl],
                skipped_count := skipped_count st + 1\<rparr>))
   \<and> (key_of row \<noteq> [] \<and> files_map st (key_of row) = None \<longrightarrow>
      row_step s idx row st =
        Inr (Skipped_Not_Found,
             st\<lparr>log_file := log_file st @
                  [mark_warn @ '' Row '' @ str_nat (idx + 1) @ '': File not found: '' @ quote @
                   key_of row @ quote @ '' (skipped)'' @ nl],
                skipped_count := skipped_count st + 1\<rparr>))
   \<and> (\<forall>old_path oc st'.
        key_of row \<noteq> [] \<and> files_map st (key_of row) = Some old_path \<and>
        row_step s idx row st = Inr (oc, st') \<longrightarrow>
          oc \<noteq> Skipped_Empty_Key \<and> oc \<noteq> Skipped_Not_Found)
   \<and> (files_map (initial_state s env files fs) k = None \<longleftrightarrow> k \<notin> basename ` set files)
   \<and> (\<forall>ocs st' err i.
        rename_loop s idx rows st = (ocs, st', err) \<and> i < length ocs \<and> key_of (rows ! i) = [] \<longrightarrow>
          ocs ! i = Skipped_Empty_Key)
   \<and> (\<forall>oc st'.
        row_step s idx row st = Inr (oc, st') \<longrightarrow>
          (oc \<noteq> Renamed \<longrightarrow> files_map st' = files_map st) \<and>
          (oc = Renamed \<longrightarrow>
             (\<exists>old_path. files_map st (key_of row) = Some old_path \<and>
                files_map st' =
                  (files_map st)(key_of row := None,
                     new_name_of s row \<mapsto> new_path_of s row old_path))))
   \<and> (\<forall>i. i < length (outcomes (rename_files_from_excel s env rows files fs)) \<and>
            Renamed \<notin> set (take i (outcomes (rename_files_from_excel s env rows files fs))) \<and>
            key_of (rows ! i) \<noteq> [] \<longrightarrow>
          (outcomes (rename_files_from_excel s env rows files fs) ! i = Skipped_Not_Found \<longleftrightarrow>
             key_of (rows ! i) \<notin> basename ` set files))"
proof -
  have pass: "\<forall>i. i < length (outcomes (rename_files_from_excel s env rows files fs)) \<and>
            Renamed \<notin> set (take i (outcomes (rename_files_from_excel s env rows files fs))) \<and>
            key_of (rows ! i) \<noteq> [] \<longrightarrow>
          (outcomes (rename_files_from_excel s env rows files fs) ! i = Skipped_Not_Found \<longleftrightarrow>
             key_of (rows ! i) \<notin> basename ` set files)"
  proof (intro allI impI)
    fix i
    assume a: "i < length (outcomes (rename_files_from_excel s env rows files fs)) \<and>
        Renamed \<notin> set (take i (outcomes (rename_files_from_excel s env rows files fs))) \<and>
        key_of (rows ! i) \<noteq> []"
    obtain ocs st1 err where
      loop: "rename_loop s 0 rows (initial_state s env files fs) = (ocs, st1, err)"
      by (cases "rename_loop s 0 rows (initial_state s env files fs)")
    note run = rename_files_from_excel_loop [OF loop]
    from a have i: "i < length ocs" and clean: "Renamed \<notin> set (take i ocs)"
      by (simp_all add: run(1))
    from rename_loop_nth_before_rename [OF loop i clean] obtain sti sti' where
      one: "row_step s (0 + i) (rows ! i) sti = Inr (ocs ! i, sti')"
      and same: "files_map sti = files_map (initial_state s env files fs)"
      by blast
    from row_step_not_found_iff [OF one] a same
    have "ocs ! i = Skipped_Not_Found \<longleftrightarrow>
        files_map (initial_state s env files fs) (key_of (rows ! i)) = None"
      by simp
    then show "outcomes (rename_files_from_excel s env rows files fs) ! i = Skipped_Not_Found \<longleftrightarrow>
        key_of (rows ! i) \<notin> basename ` set files"
      by (simp add: run(1) initial_state_def files_map_of_unlisted)
  qed
  have rows: "(key_of row = [] \<longrightarrow>
      row_step s idx row st =
        Inr (Skipped_Empty_Key,
             st\<lparr>log_file := log_file st @
                  [mark_warn @ '' Row '' @ str_nat (idx + 1) @
                   '': Empty Current_Filename (skipped)'' @ nl],
                skipped_count := skipped_count st + 1\<rparr>))
   \<and> (key_of row \<noteq> [] \<and> files_map st (key_of row) = None \<longrightarrow>
      row_step s idx row st =
        Inr (Skipped_Not_Found,
             st\<lparr>log_file := log_file st @
                  [mark_warn @ '' Row '' @ str_nat (idx + 1) @ '': File not found: '' @ quote @
                   key_of row @ quote @ '' (skipped)'' @ nl],
                skipped_count := skipped_count st + 1\<rparr>))
   \<and> (\<forall>old_path oc st'.
        key_of row \<noteq> [] \<and> files_map st (key_of row) = Some old_path \<and>
        row_step s idx row st = Inr (oc, st') \<longrightarrow>
          oc \<noteq> Skipped_Empty_Key \<and> oc \<noteq> Skipped_Not_Found)
   \<and> (files_map (initial_state s env files fs) k = None \<longleftrightarrow> k \<notin> basename ` set files)
   \<and> (\<forall>ocs st' err i.
        rename_loop s idx rows st = (ocs, st', err) \<and> i < length ocs \<and> key_of (rows ! i) = [] \<longrightarrow>
          ocs ! i = Skipped_Empty_Key)"
  proof (intro conjI allI impI)
    assume "key_of row = []"
    then show "row_step s idx row st =
          Inr (Skipped_Empty_Key,
               st\<lparr>log_file := log_file st @
                    [mark_warn @ '' Row '' @ str_nat (idx + 1) @
                     '': Empty Current_Filename (skipped)'' @ nl],
                  skipped_count := skipped_count st + 1\<rparr>)"
      by (rule row_step_empty_key)
  next
    assume "key_of row \<noteq> [] \<and> files_map st (key_of row) = None"
    then show "row_step s idx row st =
          Inr (Skipped_Not_Found,
               st\<lparr>log_file := log_file st @
                    [mark_warn @ '' Row '' @ str_nat (idx + 1) @ '': File not found: '' @ quote @
                     key_of row @ quote @ '' (skipped)'' @ nl],
                  skipped_count := skipped_count st + 1\<rparr>)"
      by (simp add: row_step_not_found)
  next
    fix old_path oc st'
    assume a: "key_of row \<noteq> [] \<and> files_map st (key_of row) = Some old_path \<and>
        row_step s idx row st = Inr (oc, st')"
    show "oc \<noteq> Skipped_Empty_Key"
    proof (cases rule: row_step_cases [where row = row and st = st and s = s])
      case Empty_Key
      with a show ?thesis by simp
    next
      case Not_Found
      with a show ?thesis by simp
    next
      case (No_Change p)
      with a show ?thesis by (auto simp: row_step_no_change)
    next
      case (Target_Exists p)
      with a show ?thesis by (auto simp: row_step_target_exists)
    next
      case (Abort p e)
      with a show ?thesis by (simp add: row_step_abort)
    next
      case (Try_Rename p)
      with a show ?thesis
        by (auto simp: row_step_try_rename try_rename_def split: sum.splits if_splits)
    qed
    show "oc \<noteq> Skipped_Not_Found"
    proof (cases rule: row_step_cases [where row = row and st = st and s = s])
      case Empty_Key
      with a show ?thesis by simp
    next
      case Not_Found
      with a show ?thesis by simp
    next
      case (No_Change p)
      with a show ?thesis by (auto simp: row_step_no_change)
    next
      case (Target_Exists p)
      with a show ?thesis by (auto simp: row_step_target_exists)
    next
      case (Abort p e)
      with a show ?thesis by (simp add: row_step_abort)
    next
      case (Try_Rename p)
      with a show ?thesis
        by (auto simp: row_step_try_rename try_rename_def split: sum.splits if_splits)
    qed
  next
    show "files_map (initial_state s env files fs) k = None \<longleftrightarrow> k \<notin> basename ` set files"
      by (simp add: initial_state_def files_map_of_unlisted)
  next
    fix ocs st' err i
    assume a: "rename_loop s idx rows st = (ocs, st', err) \<and> i < length ocs \<and>
        key_of (rows ! i) = []"
    then obtain sti sti' where "row_step s (idx + i) (rows ! i) sti = Inr (ocs ! i, sti')"
      using rename_loop_nth [of s idx rows st ocs st' err i] by blast
    with a show "ocs ! i = Skipped_Empty_Key"
      by (simp add: row_step_empty_key)
  qed
  have dict: "\<forall>oc st'.
        row_step s idx row st = Inr (oc, st') \<longrightarrow>
          (oc \<noteq> Renamed \<longrightarrow> files_map st' = files_map st) \<and>
          (oc = Renamed \<longrightarrow>
             (\<exists>old_path. files_map st (key_of row) = Some old_path \<and>
                files_map st' =
                  (files_map st)(key_of row := None,
                     new_name_of s row \<mapsto> new_path_of s row old_path)))"
    using row_step_files_map [of s idx row st] by blast
  from rows dict pass show ?thesis by blast
qed

theorem matching_by_exact_key_witness:
  "(case row_step (demo_settings False) 6
           \<lparr>Current_Filename = ''  '', Prefix = ''001'', New_Filename = ''x'', Notes = ''n''\<rparr>
           (initial_state (demo_settings False) demo_env [''/d/a.pdf'']
              (demo_folder [(''/d/a.pdf'', 1)] [])) of
      Inl e \<Rightarrow> False
    | Inr (oc, st') \<Rightarrow>
        oc = Skipped_Empty_Key \<and> skipped_count st' = 1 \<and>
        inode_of (disk st') ''/d/a.pdf'' = Some 1 \<and> files_map st' ''a.pdf'' = Some ''/d/a.pdf'')
   \<and> (case row_step (demo_settings False) 0 (demo_row ''A.pdf'' ''x'')
           (initial_state (demo_settings False) demo_env [''/d/a.pdf'']
              (demo_folder [(''/d/a.pdf'', 1)] [])) of
      Inl e \<Rightarrow> False
    | Inr (oc, st') \<Rightarrow>
        oc = Skipped_Not_Found \<and> skipped_count st' = 1 \<and>
        inode_of (disk st') ''/d/a.pdf'' = Some 1 \<and> files_map st' ''a.pdf'' = Some ''/d/a.pdf'')
   \<and> outcomes (rename_files_from_excel (demo_settings False) demo_env
        [demo_row ''a.pdf'' ''a'', demo_row ''b.pdf'' ''y''] [''/d/a.pdf'']
        (demo_folder [(''/d/a.pdf'', 1)] [])) ! 1 = Skipped_Not_Found"
proof -
  let ?s = "demo_settings False"
  let ?st = "initial_state ?s demo_env [''/d/a.pdf''] (demo_folder [(''/d/a.pdf'', 1)] [])"
  let ?rows = "[demo_row ''a.pdf'' ''a'', demo_row ''b.pdf'' ''y'']"
  let ?fs = "demo_folder [(''/d/a.pdf'', 1)] []"
  have before: "1 < length (outcomes (rename_files_from_excel ?s demo_env ?rows [''/d/a.pdf''] ?fs))
      \<and> Renamed \<notin> set (take 1 (outcomes (rename_files_from_excel ?s demo_env ?rows [''/d/a.pdf''] ?fs)))"
    by code_simp
  have key3: "key_of (?rows ! 1) = ''b.pdf''"
    by code_simp
  have base: "basename ''/d/a.pdf'' = ''a.pdf''"
    by code_simp
  from key3 base have unlisted: "key_of (?rows ! 1) \<noteq> [] \<and>
      key_of (?rows ! 1) \<notin> basename ` set [''/d/a.pdf'']"
    by simp
  from matching_by_exact_key [of _ ?s _ _ demo_env "[''/d/a.pdf'']" ?fs _ ?rows] before unlisted
  have r3: "outcomes (rename_files_from_excel ?s demo_env ?rows [''/d/a.pdf''] ?fs) ! 1 =
      Skipped_Not_Found"
    by blast
  let ?blank = "\<lparr>Current_Filename = ''  '', Prefix = ''001'', New_Filename = ''x'', Notes = ''n''\<rparr>"
  have key1: "key_of ?blank = []"
    by code_simp
  have key2: "key_of (demo_row ''A.pdf'' ''x'') \<noteq> [] \<and>
      files_map ?st (key_of (demo_row ''A.pdf'' ''x'')) = None"
    by code_simp
  have listed: "files_map ?st ''a.pdf'' = Some ''/d/a.pdf''"
    by code_simp
  from matching_by_exact_key [of ?blank ?s 6 ?st] key1
  have r1: "row_step ?s 6 ?blank ?st =
        Inr (Skipped_Empty_Key,
             ?st\<lparr>log_file := log_file ?st @
                  [mark_warn @ '' Row '' @ str_nat (6 + 1) @
                   '': Empty Current_Filename (skipped)'' @ nl],
                skipped_count := skipped_count ?st + 1\<rparr>)"
    by blast
  from matching_by_exact_key [of "demo_row ''A.pdf'' ''x''" ?s 0 ?st] key2
  have r2: "row_step ?s 0 (demo_row ''A.pdf'' ''x'') ?st =
        Inr (Skipped_Not_Found,
             ?st\<lparr>log_file := log_file ?st @
                  [mark_warn @ '' Row '' @ str_nat (0 + 1) @ '': File not found: '' @ quote @
                   key_of (demo_row ''A.pdf'' ''x'') @ quote @ '' (skipped)'' @ nl],
                skipped_count := skipped_count ?st + 1\<rparr>)"
    by blast
  show ?thesis
    unfolding r1 r2 using listed r3 by (simp add: initial_state_def demo_folder_def)
qed

text \<open>
  C4 as stated fails where it says that a row is matched against the listing.  The pass
  looks the key up in its dictionary, which its own renames update.  After row 1 has
  renamed \<^verbatim>\<open>a.pdf\<close> to \<^verbatim>\<open>x.pdf\<close>, a second row with the key \<^verbatim>\<open>x.pdf\<close>, which is no listed
  base name, is matched and renamed; and a second row with the key \<^verbatim>\<open>a.pdf\<close>, which is a
  listed base name, is skipped as ``File not found''.
\<close>

theorem matching_follows_the_renames:
  "map basename [''/d/a.pdf''] = [''a.pdf'']
   \<and> key_of (demo_row ''x.pdf'' ''y'') = ''x.pdf''
   \<and> outcomes (rename_files_from_excel (demo_settings False) demo_env
        [demo_row ''a.pdf'' ''x'', demo_row ''x.pdf'' ''y''] [''/d/a.pdf'']
        (demo_folder [(''/d/a.pdf'', 1)] [])) = [Renamed, Renamed]
   \<and> key_of (demo_row ''a.pdf'' ''z'') = ''a.pdf''
   \<and> outcomes (rename_files_from_excel (demo_settings False) demo_env
        [demo_row ''a.pdf'' ''x'', demo_row ''a.pdf'' ''z''] [''/d/a.pdf'']
        (demo_folder [(''/d/a.pdf'', 1)] [])) = [Renamed, Skipped_Not_Found]"
  by code_simp

subsection \<open>A live pass over a well-formed folder runs to its end\<close>

lemma samefile_defined:
  assumes "inode_of fs p1 = Some i" and "inode_of fs p2 = Some j"
  shows "samefile fs p1 p2 = Inr (i = j)"
  using assms by (simp add: samefile_def os_stat_def)

lemma samefile_True:
  assumes "samefile fs p1 p2 = Inr True"
  shows "\<exists>i. inode_of fs p1 = Some i \<and> inode_of fs p2 = Some i"
  using assms by (auto simp: samefile_def os_stat_def split: option.splits)

lemma os_rename_refused:
  assumes "inode_of fs src = Some i" and "rename_error fs src dst = Some n"
  shows "os_rename fs src dst = Inl (OSError n src (Some dst))"
  using assms by (simp add: os_rename_def)

lemma os_rename_same_file:
  assumes "inode_of fs src = Some i" and "rename_error fs src dst = None"
    and "inode_of fs dst = Some i"
  shows "os_rename fs src dst = Inr fs"
  using assms by (simp add: os_rename_def)

lemma os_rename_moves:
  assumes "inode_of fs src = Some i" and "rename_error fs src dst = None"
    and "inode_of fs dst \<noteq> Some i"
  shows "os_rename fs src dst = Inr (fs\<lparr>inode_of := (inode_of fs)(src := None, dst \<mapsto> i)\<rparr>)"
  using assms by (simp add: os_rename_def)

lemma well_listed_skip [simp]:
  "well_listed (st\<lparr>log_file := l, skipped_count := n\<rparr>) = well_listed st"
  by (simp add: well_listed_def)

lemma well_listed_error [simp]:
  "well_listed (st\<lparr>log_file := l, error_count := n\<rparr>) = well_listed st"
  by (simp add: well_listed_def)

lemma well_listed_same_file:
  assumes wl: "well_listed st" and m: "files_map st k = Some p"
  shows "well_listed (st\<lparr>disk := disk st, log_file := l, renamed_count := n,
           files_map := (files_map st)(k := None, nn \<mapsto> p)\<rparr>)"
proof -
  from wl have ex: "\<And>k p. files_map st k = Some p \<Longrightarrow> inode_of (disk st) p \<noteq> None"
    and inj: "\<And>k k' p. files_map st k = Some p \<Longrightarrow> files_map st k' = Some p \<Longrightarrow> k = k'"
    and na: "no_aliases (disk st)"
    by (auto simp: well_listed_def)
  show ?thesis
    unfolding well_listed_def
  proof (intro conjI allI impI)
    fix k1 q
    assume "files_map (st\<lparr>disk := disk st, log_file := l, renamed_count := n,
           files_map := (files_map st)(k := None, nn \<mapsto> p)\<rparr>) k1 = Some q"
    then have "files_map st k1 = Some q \<or> q = p"
      by (auto split: if_splits)
    with ex m show "inode_of (disk (st\<lparr>disk := disk st, log_file := l, renamed_count := n,
           files_map := (files_map st)(k := None, nn \<mapsto> p)\<rparr>)) q \<noteq> None"
      by auto
  next
    fix k1 k2 q
    assume a: "files_map (st\<lparr>disk := disk st, log_file := l, renamed_count := n,
           files_map := (files_map st)(k := None, nn \<mapsto> p)\<rparr>) k1 = Some q \<and>
         files_map (st\<lparr>disk := disk st, log_file := l, renamed_count := n,
           files_map := (files_map st)(k := None, nn \<mapsto> p)\<rparr>) k2 = Some q"
    show "k1 = k2"
    proof (rule ccontr)
      assume ne: "k1 \<noteq> k2"
      from a have c1: "k1 = nn \<and> q = p \<or> k1 \<noteq> nn \<and> k1 \<noteq> k \<and> files_map st k1 = Some q"
        and c2: "k2 = nn \<and> q = p \<or> k2 \<noteq> nn \<and> k2 \<noteq> k \<and> files_map st k2 = Some q"
        by (auto split: if_splits)
      from c1 c2 ne inj m show False
        by metis
    qed
  next
    from na show "no_aliases (disk (st\<lparr>disk := disk st, log_file := l, renamed_count := n,
           files_map := (files_map st)(k := None, nn \<mapsto> p)\<rparr>))"
      by simp
  qed
qed

lemma well_listed_moved:
  assumes wl: "well_listed st" and m: "files_map st k = Some p"
    and src: "inode_of (disk st) p = Some i" and dst: "inode_of (disk st) np = None"
  shows "well_listed (st\<lparr>disk := (disk st)\<lparr>inode_of := (inode_of (disk st))(p := None, np \<mapsto> i)\<rparr>,
           log_file := l, renamed_count := n,
           files_map := (files_map st)(k := None, nn \<mapsto> np)\<rparr>)"
proof -
  from wl have ex: "\<And>k p. files_map st k = Some p \<Longrightarrow> inode_of (disk st) p \<noteq> None"
    and inj: "\<And>k k' p. files_map st k = Some p \<Longrightarrow> files_map st k' = Some p \<Longrightarrow> k = k'"
    and na: "\<And>p q i. inode_of (disk st) p = Some i \<Longrightarrow> inode_of (disk st) q = Some i \<Longrightarrow> p = q"
    by (auto simp: well_listed_def no_aliases_def)
  let ?st' = "st\<lparr>disk := (disk st)\<lparr>inode_of := (inode_of (disk st))(p := None, np \<mapsto> i)\<rparr>,
           log_file := l, renamed_count := n,
           files_map := (files_map st)(k := None, nn \<mapsto> np)\<rparr>"
  have fm: "\<And>k1 q. files_map ?st' k1 = Some q \<Longrightarrow>
      k1 = nn \<and> q = np \<or> k1 \<noteq> nn \<and> k1 \<noteq> k \<and> files_map st k1 = Some q"
    by (auto split: if_splits)
  have ino: "\<And>q j. inode_of (disk ?st') q = Some j \<Longrightarrow>
      q = np \<and> j = i \<or> q \<noteq> np \<and> q \<noteq> p \<and> inode_of (disk st) q = Some j"
    by (auto split: if_splits)
  show ?thesis
    unfolding well_listed_def no_aliases_def
  proof (intro conjI allI impI)
    fix k1 q
    assume "files_map ?st' k1 = Some q"
    from fm [OF this] show "inode_of (disk ?st') q \<noteq> None"
    proof
      assume "k1 = nn \<and> q = np"
      then show ?thesis by simp
    next
      assume a: "k1 \<noteq> nn \<and> k1 \<noteq> k \<and> files_map st k1 = Some q"
      with inj m have "q \<noteq> p" by blast
      moreover from a ex have "inode_of (disk st) q \<noteq> None" by blast
      ultimately show ?thesis by simp
    qed
  next
    fix k1 k2 q
    assume a: "files_map ?st' k1 = Some q \<and> files_map ?st' k2 = Some q"
    show "k1 = k2"
    proof (rule ccontr)
      assume ne: "k1 \<noteq> k2"
      from a fm have c1: "k1 = nn \<and> q = np \<or> k1 \<noteq> nn \<and> k1 \<noteq> k \<and> files_map st k1 = Some q"
        and c2: "k2 = nn \<and> q = np \<or> k2 \<noteq> nn \<and> k2 \<noteq> k \<and> files_map st k2 = Some q"
        by blast+
      from c1 c2 ne inj ex dst show False
        by metis
    qed
  next
    fix q1 q2 j
    assume a: "inode_of (disk ?st') q1 = Some j \<and> inode_of (disk ?st') q2 = Some j"
    with ino have c1: "q1 = np \<and> j = i \<or> q1 \<noteq> np \<and> q1 \<noteq> p \<and> inode_of (disk st) q1 = Some j"
      and c2: "q2 = np \<and> j = i \<or> q2 \<noteq> np \<and> q2 \<noteq> p \<and> inode_of (disk st) q2 = Some j"
      by blast+
    from c1 c2 na src show "q1 = q2"
      by metis
  qed
qed

lemma well_listed_exists:
  assumes "well_listed st" and "files_map st k = Some p"
  shows "\<exists>i. inode_of (disk st) p = Some i"
  using assms unfolding well_listed_def by blast

lemma live_row_step:
  assumes live: "\<not> dry_run_var s" and wl: "well_listed st"
  shows "\<exists>oc st'. row_step s idx row st = Inr (oc, st') \<and> well_listed st'"
proof (cases rule: row_step_cases [where row = row and st = st and s = s])
  case Empty_Key
  with wl show ?thesis by (simp add: row_step_empty_key)
next
  case Not_Found
  with wl show ?thesis by (simp add: row_step_not_found)
next
  case (No_Change old_path)
  with wl show ?thesis by (simp add: row_step_no_change)
next
  case (Target_Exists old_path)
  with wl show ?thesis by (simp add: row_step_target_exists)
next
  case (Abort old_path e)
  from well_listed_exists [OF wl Abort(2)] obtain i where "inode_of (disk st) old_path = Some i"
    by blast
  moreover from Abort(4) obtain j where "inode_of (disk st) (new_path_of s row old_path) = Some j"
    by (auto simp: path_exists_def)
  ultimately have "samefile (disk st) old_path (new_path_of s row old_path) = Inr (i = j)"
    by (rule samefile_defined)
  with Abort(5) show ?thesis by simp
next
  case (Try_Rename old_path)
  let ?np = "new_path_of s row old_path"
  from well_listed_exists [OF wl Try_Rename(2)] obtain i where
    src: "inode_of (disk st) old_path = Some i"
    by blast
  from live Try_Rename have step: "row_step s idx row st =
      Inr (try_rename False (key_of row) (new_name_of s row) old_path ?np (strip (Notes row)) st)"
    by (simp add: row_step_try_rename)
  show ?thesis
  proof (cases "rename_error (disk st) old_path ?np")
    case (Some n)
    with src have "os_rename (disk st) old_path ?np = Inl (OSError n old_path (Some ?np))"
      by (rule os_rename_refused)
    with step wl show ?thesis by (simp add: try_rename_failed)
  next
    case unlocked: None
    show ?thesis
    proof (cases "inode_of (disk st) ?np = Some i")
      case True
      with src unlocked have ok: "os_rename (disk st) old_path ?np = Inr (disk st)"
        by (rule os_rename_same_file)
      from wl src True have "?np = old_path"
        by (auto simp: well_listed_def no_aliases_def)
      with well_listed_same_file [OF wl Try_Rename(2)] step ok show ?thesis
        by (simp add: try_rename_performed)
    next
      case False
      with src unlocked have ok: "os_rename (disk st) old_path ?np =
          Inr ((disk st)\<lparr>inode_of := (inode_of (disk st))(old_path := None, ?np \<mapsto> i)\<rparr>)"
        by (rule os_rename_moves)
      from Try_Rename(4) False src samefile_True [of "disk st" old_path ?np]
      have "inode_of (disk st) ?np = None"
        by (auto simp: path_exists_def)
      from well_listed_moved [OF wl Try_Rename(2) src this] step ok show ?thesis
        by (simp add: try_rename_performed)
    qed
  qed
qed

lemma live_rename_loop:
  assumes live: "\<not> dry_run_var s" and wl: "well_listed st"
    and loop: "rename_loop s idx rows st = (ocs, st', err)"
  shows "err = None \<and> well_listed st'"
  using wl loop
proof (induction rows arbitrary: idx st ocs st' err)
  case Nil
  then show ?case by simp
next
  case (Cons row rows)
  from live_row_step [OF live Cons.prems(1)] obtain oc st1 where
    one: "row_step s idx row st = Inr (oc, st1)" and wl1: "well_listed st1"
    by blast
  obtain ocs1 st2 err1 where rest: "rename_loop s (idx + 1) rows st1 = (ocs1, st2, err1)"
    by (cases "rename_loop s (idx + 1) rows st1")
  from Cons.prems(2) one rest have res: "st' = st2" "err = err1"
    by simp_all
  from Cons.IH [OF wl1 rest] res show ?case by simp
qed

lemma well_listed_initial:
  assumes "\<forall>p\<in>set files. path_exists fs p" and "no_aliases fs"
  shows "well_listed (initial_state s env files fs)"
  unfolding well_listed_def
proof (intro conjI allI impI)
  fix k p
  assume "files_map (initial_state s env files fs) k = Some p"
  then have "p \<in> set files"
    by (simp add: initial_state_def files_map_of_listed)
  with assms(1) show "inode_of (disk (initial_state s env files fs)) p \<noteq> None"
    by (simp add: initial_state_def path_exists_def)
next
  fix k k' p
  assume "files_map (initial_state s env files fs) k = Some p \<and>
      files_map (initial_state s env files fs) k' = Some p"
  then have "basename p = k" and "basename p = k'"
    by (auto simp: initial_state_def dest: files_map_of_listed)
  then show "k = k'" by simp
next
  from assms(2) show "no_aliases (disk (initial_state s env files fs))"
    by (simp add: initial_state_def)
qed

lemma no_aliases_demo_folder:
  assumes "distinct (map snd entries)"
  shows "no_aliases (demo_folder entries refused)"
  unfolding no_aliases_def
proof (intro allI impI)
  fix p q i
  assume "inode_of (demo_folder entries refused) p = Some i \<and>
      inode_of (demo_folder entries refused) q = Some i"
  then have "(p, i) \<in> set entries" and "(q, i) \<in> set entries"
    by (auto simp: demo_folder_def dest: map_of_SomeD)
  with assms show "p = q"
    by (metis eq_key_imp_eq_value distinct_map inj_on_def snd_conv
        distinct_map prod.inject map_of_eq_Some_iff)
qed

subsection \<open>The tallies\<close>

text \<open>
  The three tallies count the processed rows, each in exactly one tally: their sum is the
  number of rows processed.  When the pass runs to its end (no exception leaves the loop)
  that is every row of the sheet; when an exception leaves the loop, the row that raised
  it and the rows after it are in no tally.  A live pass over a folder in which every
  listed file exists and no file has two names always runs to its end.
\<close>

lemma tallies_count_processed_rows:
  "(case counts (rename_files_from_excel s env df files fs) of
      (renamed, errors, skipped) \<Rightarrow>
        renamed = count_tally Counted_Renamed (outcomes (rename_files_from_excel s env df files fs)) \<and>
        errors = count_tally Counted_Error (outcomes (rename_files_from_excel s env df files fs)) \<and>
        skipped = count_tally Counted_Skipped (outcomes (rename_files_from_excel s env df files fs)) \<and>
        renamed + errors + skipped = length (outcomes (rename_files_from_excel s env df files fs)))
   \<and> (raised (rename_files_from_excel s env df files fs) = None \<longrightarrow>
        length (outcomes (rename_files_from_excel s env df files fs)) = length df)
   \<and> (raised (rename_files_from_excel s env df files fs) \<noteq> None \<longrightarrow>
        length (outcomes (rename_files_from_excel s env df files fs)) < length df)
   \<and> (\<not> dry_run_var s \<and> (\<forall>p\<in>set files. path_exists fs p) \<and> no_aliases fs \<longrightarrow>
        raised (rename_files_from_excel s env df files fs) = None)"
proof -
  obtain ocs st err where
    loop: "rename_loop s 0 df (initial_state s env files fs) = (ocs, st, err)"
    by (cases "rename_loop s 0 df (initial_state s env files fs)")
  note run = rename_files_from_excel_loop [OF loop]
  have zero: "renamed_count (initial_state s env files fs) = 0"
    "error_count (initial_state s env files fs) = 0"
    "skipped_count (initial_state s env files fs) = 0"
    by (simp_all add: initial_state_def)
  from rename_loop_counts [OF loop] zero
  have tallies: "renamed_count st = count_tally Counted_Renamed ocs"
    "error_count st = count_tally Counted_Error ocs"
    "skipped_count st = count_tally Counted_Skipped ocs"
    by simp_all
  have first: "case counts (rename_files_from_excel s env df files fs) of
      (renamed, errors, skipped) \<Rightarrow>
        renamed = count_tally Counted_Renamed (outcomes (rename_files_from_excel s env df files fs)) \<and>
        errors = count_tally Counted_Error (outcomes (rename_files_from_excel s env df files fs)) \<and>
        skipped = count_tally Counted_Skipped (outcomes (rename_files_from_excel s env df files fs)) \<and>
        renamed + errors + skipped = length (outcomes (rename_files_from_excel s env df files fs))"
    using tallies count_tally_total [of ocs] by (simp add: run(1) run(4))
  have len: "(raised (rename_files_from_excel s env df files fs) = None \<longrightarrow>
        length (outcomes (rename_files_from_excel s env df files fs)) = length df)
     \<and> (raised (rename_files_from_excel s env df files fs) \<noteq> None \<longrightarrow>
        length (outcomes (rename_files_from_excel s env df files fs)) < length df)"
    using rename_loop_length [OF loop] by (simp add: run(1) run(2))
  have total: "\<not> dry_run_var s \<and> (\<forall>p\<in>set files. path_exists fs p) \<and> no_aliases fs \<longrightarrow>
        raised (rename_files_from_excel s env df files fs) = None"
  proof
    assume a: "\<not> dry_run_var s \<and> (\<forall>p\<in>set files. path_exists fs p) \<and> no_aliases fs"
    then have "well_listed (initial_state s env files fs)"
      by (simp add: well_listed_initial)
    with a live_rename_loop [OF _ _ loop] have "err = None" by blast
    then show "raised (rename_files_from_excel s env df files fs) = None"
      by (simp add: run(2))
  qed
  from first len total show ?thesis by blast
qed

lemma tallies_count_processed_rows_example:
  "raised (rename_files_from_excel (demo_settings False) demo_env
      [demo_row ''a.pdf'' ''x'', demo_row ''b.pdf'' ''c'', demo_row ''zz.pdf'' ''y'']
      [''/d/a.pdf'', ''/d/b.pdf'', ''/d/c.pdf'']
      (demo_folder [(''/d/a.pdf'', 1), (''/d/b.pdf'', 2), (''/d/c.pdf'', 3)] [])) = None
   \<and> length (outcomes (rename_files_from_excel (demo_settings False) demo_env
      [demo_row ''a.pdf'' ''x'', demo_row ''b.pdf'' ''c'', demo_row ''zz.pdf'' ''y'']
      [''/d/a.pdf'', ''/d/b.pdf'', ''/d/c.pdf'']
      (demo_folder [(''/d/a.pdf'', 1), (''/d/b.pdf'', 2), (''/d/c.pdf'', 3)] []))) = 3
   \<and> counts (rename_files_from_excel (demo_settings False) demo_env
      [demo_row ''a.pdf'' ''x'', demo_row ''b.pdf'' ''c'', demo_row ''zz.pdf'' ''y'']
      [''/d/a.pdf'', ''/d/b.pdf'', ''/d/c.pdf'']
      (demo_folder [(''/d/a.pdf'', 1), (''/d/b.pdf'', 2), (''/d/c.pdf'', 3)] [])) = (1, 1, 1)"
proof -
  let ?df = "[demo_row ''a.pdf'' ''x'', demo_row ''b.pdf'' ''c'', demo_row ''zz.pdf'' ''y'']"
  let ?files = "[''/d/a.pdf'', ''/d/b.pdf'', ''/d/c.pdf'']"
  let ?fs = "demo_folder [(''/d/a.pdf'', 1), (''/d/b.pdf'', 2), (''/d/c.pdf'', 3)] []"
  have live: "\<not> dry_run_var (demo_settings False)"
    by (simp add: demo_settings_def)
  have listed: "\<forall>p\<in>set ?files. path_exists ?fs p"
    by (simp add: path_exists_def demo_folder_def)
  have single: "no_aliases ?fs"
    by (rule no_aliases_demo_folder) simp
  note t = tallies_count_processed_rows [of "demo_settings False" demo_env ?df ?files ?fs]
  from t live listed single
  have ended: "raised (rename_files_from_excel (demo_settings False) demo_env ?df ?files ?fs) = None"
    by blast
  with t have len: "length (outcomes (rename_files_from_excel (demo_settings False) demo_env
      ?df ?files ?fs)) = length ?df"
    by blast
  have c: "counts (rename_files_from_excel (demo_settings False) demo_env ?df ?files ?fs) = (1, 1, 1)"
    by code_simp
  from ended len c show ?thesis by simp
qed

text \<open>
  C9.  Every row of the sheet is to be counted in exactly one of the three tallies, so that
  the tallies add up to the number of rows.  A dry run does not do so on two rows where the
  first renames \<^verbatim>\<open>a.pdf\<close> to \<^verbatim>\<open>b.pdf\<close> and the second renames \<^verbatim>\<open>b.pdf\<close> to the existing
  \<^verbatim>\<open>c.pdf\<close>: the dictionary then names a path that is not on disk, \<^verbatim>\<open>os.path.samefile\<close>
  raises outside the \<^verbatim>\<open>try\<close> block, and the pass ends with one row counted out of two and
  no summary.
\<close>

theorem dry_run_abort_leaves_rows_uncounted:
  "counts (rename_files_from_excel (demo_settings True) demo_env
      [demo_row ''a.pdf'' ''b'', demo_row ''b.pdf'' ''c''] [''/d/a.pdf'', ''/d/c.pdf'']
      (demo_folder [(''/d/a.pdf'', 1), (''/d/c.pdf'', 2)] [])) = (1, 0, 0)
   \<and> length [demo_row ''a.pdf'' ''b'', demo_row ''b.pdf'' ''c''] = 2
   \<and> raised (rename_files_from_excel (demo_settings True) demo_env
      [demo_row ''a.pdf'' ''b'', demo_row ''b.pdf'' ''c''] [''/d/a.pdf'', ''/d/c.pdf'']
      (demo_folder [(''/d/a.pdf'', 1), (''/d/c.pdf'', 2)] [])) =
        Some (OSError ENOENT ''/d/b.pdf'' None)
   \<and> returned (rename_files_from_excel (demo_settings True) demo_env
      [demo_row ''a.pdf'' ''b'', demo_row ''b.pdf'' ''c''] [''/d/a.pdf'', ''/d/c.pdf'']
      (demo_folder [(''/d/a.pdf'', 1), (''/d/c.pdf'', 2)] [])) = None"
  by code_simp

subsection \<open>A failed rename\<close>

text \<open>
  C7.  In a live pass, when \<^verbatim>\<open>os.rename\<close> raises for a row, the exception is caught: the row
  is logged and counted as an error, the folder and the dictionary are left as they were,
  and the loop goes on with the next row in that state.  So the rows after it are all
  processed as usual; when the loop reaches its end the tallies add up to every row, the
  failed one included; and over a well-formed folder the loop does reach its end.
\<close>

theorem rename_failure_is_local:
  assumes "\<not> dry_run_var s"
    and "key_of row \<noteq> []" and "files_map st (key_of row) = Some old_path"
    and "new_name_of s row \<noteq> key_of row"
    and "\<not> path_exists (disk st) (new_path_of s row old_path) \<or>
         samefile (disk st) old_path (new_path_of s row old_path) = Inr True"
    and "os_rename (disk st) old_path (new_path_of s row old_path) = Inl e"
  shows "rename_loop s idx (row # rows) st =
           (case rename_loop s (idx + 1) rows
                   (st\<lparr>log_file := log_file st @
                        [mark_fail @ '' '' @ key_of row @ nl,
                         ''  ERROR: '' @ str_error e @ nl @ nl],
                      error_count := error_count st + 1\<rparr>) of
              (ocs, st', err) \<Rightarrow> (Error_Rename e # ocs, st', err))
       \<and> (\<forall>ocs st'. rename_loop s idx (row # rows) st = (ocs, st', None) \<longrightarrow>
             length ocs = Suc (length rows) \<and> ocs ! 0 = Error_Rename e \<and>
             renamed_count st' + error_count st' + skipped_count st' =
               renamed_count st + error_count st + skipped_count st + Suc (length rows))
       \<and> (well_listed st \<longrightarrow> (\<exists>ocs st'. rename_loop s idx (row # rows) st = (ocs, st', None)))"
proof -
  let ?st1 = "st\<lparr>log_file := log_file st @
                 [mark_fail @ '' '' @ key_of row @ nl, ''  ERROR: '' @ str_error e @ nl @ nl],
               error_count := error_count st + 1\<rparr>"
  from assms have step: "row_step s idx row st = Inr (Error_Rename e, ?st1)"
    by (simp add: row_step_try_rename try_rename_failed)
  then have eq: "rename_loop s idx (row # rows) st =
      (case rename_loop s (idx + 1) rows ?st1 of
         (ocs, st', err) \<Rightarrow> (Error_Rename e # ocs, st', err))"
    by simp
  have sums: "\<forall>ocs st'. rename_loop s idx (row # rows) st = (ocs, st', None) \<longrightarrow>
      length ocs = Suc (length rows) \<and> ocs ! 0 = Error_Rename e \<and>
      renamed_count st' + error_count st' + skipped_count st' =
        renamed_count st + error_count st + skipped_count st + Suc (length rows)"
  proof (intro allI impI)
    fix ocs st'
    assume run: "rename_loop s idx (row # rows) st = (ocs, st', None)"
    obtain ocs1 st2 err1 where rest: "rename_loop s (idx + 1) rows ?st1 = (ocs1, st2, err1)"
      by (cases "rename_loop s (idx + 1) rows ?st1")
    with run eq have res: "ocs = Error_Rename e # ocs1" "st' = st2" "err1 = None"
      by simp_all
    from rename_loop_length [OF run] have len: "length ocs = Suc (length rows)"
      by simp
    from rename_loop_counts [OF run] count_tally_total [of ocs] len
    have "renamed_count st' + error_count st' + skipped_count st' =
        renamed_count st + error_count st + skipped_count st + Suc (length rows)"
      by simp
    with len res show "length ocs = Suc (length rows) \<and> ocs ! 0 = Error_Rename e \<and>
        renamed_count st' + error_count st' + skipped_count st' =
          renamed_count st + error_count st + skipped_count st + Suc (length rows)"
      by simp
  qed
  have ends: "well_listed st \<longrightarrow> (\<exists>ocs st'. rename_loop s idx (row # rows) st = (ocs, st', None))"
  proof
    assume wl: "well_listed st"
    obtain ocs st' err where run: "rename_loop s idx (row # rows) st = (ocs, st', err)"
      by (cases "rename_loop s idx (row # rows) st")
    from live_rename_loop [OF assms(1) wl run] run
    show "\<exists>ocs st'. rename_loop s idx (row # rows) st = (ocs, st', None)"
      by blast
  qed
  from eq sums ends show ?thesis by blast
qed

theorem rename_failure_is_local_witness:
  "fst (rename_loop (demo_settings False) 0
           [demo_row ''b.pdf'' ''y'', demo_row ''a.pdf'' ''x'', demo_row ''c.pdf'' ''z'']
           (initial_state (demo_settings False) demo_env [''/d/a.pdf'', ''/d/b.pdf'', ''/d/c.pdf'']
              (demo_folder [(''/d/a.pdf'', 1), (''/d/b.pdf'', 2), (''/d/c.pdf'', 3)]
                 [((''/d/b.pdf'', ''/d/y.pdf''), EACCES)])))
     = [Error_Rename (OSError EACCES ''/d/b.pdf'' (Some ''/d/y.pdf'')), Renamed, Renamed]
   \<and> snd (snd (rename_loop (demo_settings False) 0
           [demo_row ''b.pdf'' ''y'', demo_row ''a.pdf'' ''x'', demo_row ''c.pdf'' ''z'']
           (initial_state (demo_settings False) demo_env [''/d/a.pdf'', ''/d/b.pdf'', ''/d/c.pdf'']
              (demo_folder [(''/d/a.pdf'', 1), (''/d/b.pdf'', 2), (''/d/c.pdf'', 3)]
                 [((''/d/b.pdf'', ''/d/y.pdf''), EACCES)]))))
     = None
   \<and> (let st' = fst (snd (rename_loop (demo_settings False) 0
           [demo_row ''b.pdf'' ''y'', demo_row ''a.pdf'' ''x'', demo_row ''c.pdf'' ''z'']
           (initial_state (demo_settings False) demo_env [''/d/a.pdf'', ''/d/b.pdf'', ''/d/c.pdf'']
              (demo_folder [(''/d/a.pdf'', 1), (''/d/b.pdf'', 2), (''/d/c.pdf'', 3)]
                 [((''/d/b.pdf'', ''/d/y.pdf''), EACCES)])))) in
        renamed_count st' = 2 \<and> error_count st' = 1 \<and> skipped_count st' = 0 \<and>
        inode_of (disk st') ''/d/b.pdf'' = Some 2 \<and> inode_of (disk st') ''/d/x.pdf'' = Some 1 \<and>
        inode_of (disk st') ''/d/z.pdf'' = Some 3)"
proof -
  let ?s = "demo_settings False"
  let ?st = "initial_state ?s demo_env [''/d/a.pdf'', ''/d/b.pdf'', ''/d/c.pdf'']
      (demo_folder [(''/d/a.pdf'', 1), (''/d/b.pdf'', 2), (''/d/c.pdf'', 3)]
                 [((''/d/b.pdf'', ''/d/y.pdf''), EACCES)])"
  let ?row = "demo_row ''b.pdf'' ''y''"
  have live: "\<not> dry_run_var ?s"
    by (simp add: demo_settings_def)
  have key: "key_of ?row \<noteq> []"
    by code_simp
  have matched: "files_map ?st (key_of ?row) = Some ''/d/b.pdf''"
    by code_simp
  have differs: "new_name_of ?s ?row \<noteq> key_of ?row"
    by code_simp
  have free: "\<not> path_exists (disk ?st) (new_path_of ?s ?row ''/d/b.pdf'') \<or>
      samefile (disk ?st) ''/d/b.pdf'' (new_path_of ?s ?row ''/d/b.pdf'') = Inr True"
    by code_simp
  have target: "new_path_of ?s ?row ''/d/b.pdf'' = ''/d/y.pdf''"
    by code_simp
  have on_disk: "inode_of (disk ?st) ''/d/b.pdf'' = Some 2"
    by code_simp
  have refused: "rename_error (disk ?st) ''/d/b.pdf'' ''/d/y.pdf'' = Some EACCES"
    by code_simp
  have fails: "os_rename (disk ?st) ''/d/b.pdf'' (new_path_of ?s ?row ''/d/b.pdf'') =
      Inl (OSError EACCES ''/d/b.pdf'' (Some ''/d/y.pdf''))"
    using os_rename_refused [OF on_disk refused] by (simp only: target)
  from rename_failure_is_local [OF live key matched differs free fails, of 0
      "[demo_row ''a.pdf'' ''x'', demo_row ''c.pdf'' ''z'']"]
  have eq: "rename_loop ?s 0 [?row, demo_row ''a.pdf'' ''x'', demo_row ''c.pdf'' ''z''] ?st =
      (case rename_loop ?s (0 + 1) [demo_row ''a.pdf'' ''x'', demo_row ''c.pdf'' ''z'']
              (?st\<lparr>log_file := log_file ?st @
                   [mark_fail @ '' '' @ key_of ?row @ nl,
                    ''  ERROR: '' @ str_error (OSError EACCES ''/d/b.pdf'' (Some ''/d/y.pdf'')) @ nl @ nl],
                 error_count := error_count ?st + 1\<rparr>) of
         (ocs, st', err) \<Rightarrow>
           (Error_Rename (OSError EACCES ''/d/b.pdf'' (Some ''/d/y.pdf'')) # ocs, st', err))"
    by blast
  show ?thesis
    unfolding eq by code_simp
qed

subsection \<open>The log\<close>

text \<open>
  C8 (as amended).  Whatever the dry-run switch says, a pass that reaches its loop writes
  the log: the header with the run parameters, then one non-empty entry for each row it
  processed, then (when the loop runs to its end, and then every row was processed and the
  path of the log is returned) the summary of the three tallies.  Nothing in the log says
  that a run was a dry run: the header of a dry run is the header of a live run without
  backup, and the entry of a would-be rename is the entry of a rename that was performed.
\<close>

theorem log_written_in_every_mode:
  "(\<exists>entries.
      length entries = length (outcomes (rename_files_from_excel s env df files fs)) \<and>
      [] \<notin> set entries \<and>
      log_text (rename_files_from_excel s env df files fs) =
        log_header s env @ concat entries @
        (if raised (rename_files_from_excel s env df files fs) = None
         then (case counts (rename_files_from_excel s env df files fs) of
                 (renamed, errors, skipped) \<Rightarrow> log_summary renamed errors skipped)
         else []))
   \<and> (raised (rename_files_from_excel s env df files fs) = None \<longrightarrow>
        length (outcomes (rename_files_from_excel s env df files fs)) = length df \<and>
        returned (rename_files_from_excel s env df files fs) =
          Some (join (target_folder s) (''rename_log_'' @ timestamp env @ ''.txt'')))
   \<and> log_header (s\<lparr>dry_run_var := True\<rparr>) env =
       log_header (s\<lparr>dry_run_var := False, backup_var := False\<rparr>) env
   \<and> (\<forall>fs'. os_rename (disk st) old_path new_path = Inr fs' \<longrightarrow>
        log_file (snd (try_rename True old_name new_name old_path new_path notes st)) =
        log_file (snd (try_rename False old_name new_name old_path new_path notes st)))"
proof -
  obtain ocs st1 err where
    loop: "rename_loop s 0 df (initial_state s env files fs) = (ocs, st1, err)"
    by (cases "rename_loop s 0 df (initial_state s env files fs)")
  note run = rename_files_from_excel_loop [OF loop]
  from rename_loop_log [OF loop] obtain entries where
    entries: "length entries = length ocs" "[] \<notin> set entries"
      "log_file st1 = log_file (initial_state s env files fs) @ concat entries"
    by blast
  have "length entries = length (outcomes (rename_files_from_excel s env df files fs)) \<and>
      [] \<notin> set entries \<and>
      log_text (rename_files_from_excel s env df files fs) =
        log_header s env @ concat entries @
        (if raised (rename_files_from_excel s env df files fs) = None
         then (case counts (rename_files_from_excel s env df files fs) of
                 (renamed, errors, skipped) \<Rightarrow> log_summary renamed errors skipped)
         else [])"
    using entries by (simp add: run initial_state_def)
  then have shape: "\<exists>entries.
      length entries = length (outcomes (rename_files_from_excel s env df files fs)) \<and>
      [] \<notin> set entries \<and>
      log_text (rename_files_from_excel s env df files fs) =
        log_header s env @ concat entries @
        (if raised (rename_files_from_excel s env df files fs) = None
         then (case counts (rename_files_from_excel s env df files fs) of
                 (renamed, errors, skipped) \<Rightarrow> log_summary renamed errors skipped)
         else [])"
    by blast
  have complete: "raised (rename_files_from_excel s env df files fs) = None \<longrightarrow>
        length (outcomes (rename_files_from_excel s env df files fs)) = length df \<and>
        returned (rename_files_from_excel s env df files fs) =
          Some (join (target_folder s) (''rename_log_'' @ timestamp env @ ''.txt''))"
    using rename_loop_length [OF loop] by (simp add: run)
  have header: "log_header (s\<lparr>dry_run_var := True\<rparr>) env =
       log_header (s\<lparr>dry_run_var := False, backup_var := False\<rparr>) env"
    by (simp add: log_header_def)
  have entry: "\<forall>fs'. os_rename (disk st) old_path new_path = Inr fs' \<longrightarrow>
        log_file (snd (try_rename True old_name new_name old_path new_path notes st)) =
        log_file (snd (try_rename False old_name new_name old_path new_path notes st))"
    by (simp add: try_rename_dry_run try_rename_performed)
  from shape complete header entry show ?thesis by blast
qed

theorem log_written_in_every_mode_witness:
  "raised (rename_files_from_excel (demo_settings True) demo_env
      [demo_row ''a.pdf'' ''x'', demo_row ''b.pdf'' ''c'', demo_row ''zz.pdf'' ''y'']
      [''/d/a.pdf'', ''/d/b.pdf'', ''/d/c.pdf'']
      (demo_folder [(''/d/a.pdf'', 1), (''/d/b.pdf'', 2), (''/d/c.pdf'', 3)] [])) = None
   \<and> length (outcomes (rename_files_from_excel (demo_settings True) demo_env
      [demo_row ''a.pdf'' ''x'', demo_row ''b.pdf'' ''c'', demo_row ''zz.pdf'' ''y'']
      [''/d/a.pdf'', ''/d/b.pdf'', ''/d/c.pdf'']
      (demo_folder [(''/d/a.pdf'', 1), (''/d/b.pdf'', 2), (''/d/c.pdf'', 3)] []))) = 3
   \<and> returned (rename_files_from_excel (demo_settings True) demo_env
      [demo_row ''a.pdf'' ''x'', demo_row ''b.pdf'' ''c'', demo_row ''zz.pdf'' ''y'']
      [''/d/a.pdf'', ''/d/b.pdf'', ''/d/c.pdf'']
      (demo_folder [(''/d/a.pdf'', 1), (''/d/b.pdf'', 2), (''/d/c.pdf'', 3)] [])) =
        Some ''/d/rename_log_20250101_120000.txt''"
proof -
  let ?df = "[demo_row ''a.pdf'' ''x'', demo_row ''b.pdf'' ''c'', demo_row ''zz.pdf'' ''y'']"
  let ?files = "[''/d/a.pdf'', ''/d/b.pdf'', ''/d/c.pdf'']"
  let ?fs = "demo_folder [(''/d/a.pdf'', 1), (''/d/b.pdf'', 2), (''/d/c.pdf'', 3)] []"
  have ended: "raised (rename_files_from_excel (demo_settings True) demo_env ?df ?files ?fs) = None"
    by code_simp
  have path: "join (target_folder (demo_settings True)) (''rename_log_'' @ timestamp demo_env @ ''.txt'') =
      ''/d/rename_log_20250101_120000.txt''"
    by code_simp
  from log_written_in_every_mode [of "demo_settings True" demo_env ?df ?files ?fs] ended
  have "length (outcomes (rename_files_from_excel (demo_settings True) demo_env ?df ?files ?fs)) =
        length ?df \<and>
      returned (rename_files_from_excel (demo_settings True) demo_env ?df ?files ?fs) =
        Some (join (target_folder (demo_settings True)) (''rename_log_'' @ timestamp demo_env @ ''.txt''))"
    by blast
  with ended path show ?thesis by simp
qed

text \<open>
  C8 as stated fails where it says that the log of a dry run is labelled as a preview.
  The log of a dry run of one row is, write for write, the log of the live run of the same
  row: the same header, the same entry, the same summary.  Only the folder tells them
  apart.
\<close>

theorem dry_run_log_is_not_labelled:
  "log_text (rename_files_from_excel (demo_settings True) demo_env [demo_row ''a.pdf'' ''b'']
      [''/d/a.pdf''] (demo_folder [(''/d/a.pdf'', 1)] [])) =
     [''FILE RENAMER PRO V9 - Log File'' @ nl,
      replicate 70 CHR ''='' @ nl,
      ''Timestamp: 2025-01-01 12:00:00'' @ nl @ nl,
      ''Excel: /d/index.xlsx'' @ nl,
      ''Target: /d'' @ nl,
      ''Mode: Replace | Delimiter: '' @ quote @ ''-'' @ quote @ '' | Extension: .pdf'' @ nl,
      ''Matching: Strict Current_Filename (Column B) matching'' @ nl,
      nl,
      replicate 70 CHR ''='' @ nl @ nl,
      mark_done @ '' a.pdf'' @ nl,
      ''  '' @ mark_to @ '' b.pdf'' @ nl,
      nl,
      nl @ replicate 70 CHR ''='' @ nl,
      ''SUMMARY'' @ nl,
      replicate 70 CHR ''='' @ nl,
      ''Renamed: 1 | Errors: 0 | Skipped: 0'' @ nl,
      ''Total processed: 1'' @ nl]
   \<and> log_text (rename_files_from_excel (demo_settings True) demo_env [demo_row ''a.pdf'' ''b'']
      [''/d/a.pdf''] (demo_folder [(''/d/a.pdf'', 1)] [])) =
     log_text (rename_files_from_excel (demo_settings False) demo_env [demo_row ''a.pdf'' ''b'']
      [''/d/a.pdf''] (demo_folder [(''/d/a.pdf'', 1)] []))
   \<and> inode_of (folder (rename_files_from_excel (demo_settings True) demo_env
      [demo_row ''a.pdf'' ''b''] [''/d/a.pdf''] (demo_folder [(''/d/a.pdf'', 1)] []))) ''/d/a.pdf'' = Some 1
   \<and> inode_of (folder (rename_files_from_excel (demo_settings False) demo_env
      [demo_row ''a.pdf'' ''b''] [''/d/a.pdf''] (demo_folder [(''/d/a.pdf'', 1)] []))) ''/d/a.pdf'' = None"
  by code_simp

subsection \<open>A dry run against the live pass\<close>








subsection \<open>Two rows that propose the same name\<close>

lemma proposes_Some:
  assumes "proposes s fmap row = Some n"
  shows "\<exists>old_path. key_of row \<noteq> [] \<and> fmap (key_of row) = Some old_path \<and>
           n = new_name_of s row \<and> new_name_of s row \<noteq> key_of row"
  using assms by (auto simp: proposes_def split: if_splits option.splits)

lemma preview_row_proposing:
  assumes "proposes s fmap row = Some n" and "fmap (key_of row) = Some old_path"
  shows "preview_row s fmap fs row st =
     (if n \<in> proposed_new_names st \<or> path_exists fs (new_path_of s row old_path)
      then (Preview_Collision,
            st\<lparr>collisions := collisions st + 1, changes_count := changes_count st + 1\<rparr>)
      else (Preview_Rename,
            st\<lparr>proposed_new_names := insert n (proposed_new_names st),
               changes_count := changes_count st + 1\<rparr>))"
proof -
  from proposes_Some [OF assms(1)] assms(2)
  have "key_of row \<noteq> []" and "n = new_name_of s row" and "new_name_of s row \<noteq> key_of row"
    by auto
  with assms(2) show ?thesis
    by (auto simp: preview_row_def key_of_def new_name_of_def new_path_of_def Let_def)
qed

lemma preview_row_proposed:
  "proposed_new_names (snd (preview_row s fmap fs row st)) =
     proposed_new_names st \<or>
   (\<exists>n. proposes s fmap row = Some n \<and>
        proposed_new_names (snd (preview_row s fmap fs row st)) = insert n (proposed_new_names st))"
  by (auto simp: preview_row_def proposes_def key_of_def new_name_of_def Let_def
      split: option.splits)

lemma preview_loop_proposed_mono:
  "proposed_new_names st \<subseteq> proposed_new_names (snd (preview_loop s fmap fs rows st))"
proof (induction rows arbitrary: st)
  case Nil
  show ?case by simp
next
  case (Cons row rows)
  obtain ps st1 where one: "preview_row s fmap fs row st = (ps, st1)"
    by (cases "preview_row s fmap fs row st")
  obtain pss st2 where rest: "preview_loop s fmap fs rows st1 = (pss, st2)"
    by (cases "preview_loop s fmap fs rows st1")
  from preview_row_proposed [of s fmap fs row st] one
  have "proposed_new_names st \<subseteq> proposed_new_names st1"
    by auto
  moreover from Cons.IH [of st1] rest
  have "proposed_new_names st1 \<subseteq> proposed_new_names st2"
    by simp
  ultimately show ?case using one rest by simp
qed

lemma preview_loop_proposed_upper:
  assumes "n \<in> proposed_new_names (snd (preview_loop s fmap fs rows st))"
  shows "n \<in> proposed_new_names st \<or> (\<exists>k<length rows. proposes s fmap (rows ! k) = Some n)"
  using assms
proof (induction rows arbitrary: st)
  case Nil
  then show ?case by simp
next
  case (Cons row rows)
  obtain ps st1 where one: "preview_row s fmap fs row st = (ps, st1)"
    by (cases "preview_row s fmap fs row st")
  obtain pss st2 where rest: "preview_loop s fmap fs rows st1 = (pss, st2)"
    by (cases "preview_loop s fmap fs rows st1")
  from Cons.prems one rest have "n \<in> proposed_new_names (snd (preview_loop s fmap fs rows st1))"
    by simp
  from Cons.IH [OF this]
  show ?case
  proof
    assume "n \<in> proposed_new_names st1"
    with preview_row_proposed [of s fmap fs row st] one
    have "n \<in> proposed_new_names st \<or> proposes s fmap row = Some n"
      by auto
    then show ?thesis by auto
  next
    assume "\<exists>k<length rows. proposes s fmap (rows ! k) = Some n"
    then obtain k where "k < length rows" and "proposes s fmap (rows ! k) = Some n"
      by blast
    then have "Suc k < length (row # rows) \<and> proposes s fmap ((row # rows) ! Suc k) = Some n"
      by simp
    then show ?thesis by blast
  qed
qed

lemma preview_loop_append:
  "preview_loop s fmap fs (xs @ ys) st =
     (fst (preview_loop s fmap fs xs st) @
        fst (preview_loop s fmap fs ys (snd (preview_loop s fmap fs xs st))),
      snd (preview_loop s fmap fs ys (snd (preview_loop s fmap fs xs st))))"
proof (induction xs arbitrary: st)
  case Nil
  show ?case by simp
next
  case (Cons x xs)
  obtain ps st1 where one: "preview_row s fmap fs x st = (ps, st1)"
    by (cases "preview_row s fmap fs x st")
  show ?case
    using Cons.IH [of st1] one by (simp add: split_beta)
qed

lemma preview_loop_nth:
  assumes "i < length rows"
  shows "fst (preview_loop s fmap fs rows st) ! i =
     fst (preview_row s fmap fs (rows ! i) (snd (preview_loop s fmap fs (take i rows) st)))"
proof -
  from assms have split: "rows = take i rows @ rows ! i # drop (Suc i) rows"
    by (rule id_take_nth_drop)
  have len: "length (fst (preview_loop s fmap fs xs st')) = length xs" for xs st'
    by (induction xs arbitrary: st') (simp_all add: split_beta)
  have "fst (preview_loop s fmap fs (take i rows @ rows ! i # drop (Suc i) rows) st) ! i =
     fst (preview_row s fmap fs (rows ! i) (snd (preview_loop s fmap fs (take i rows) st)))"
    using assms by (simp add: preview_loop_append nth_append len split_beta)
  with split show ?thesis by simp
qed

text \<open>In the preview the first row to propose a free name gets it, and a later row collides.\<close>

lemma preview_first_wins:
  assumes ij: "i < j" "j < length rows"
    and pi: "proposes s fmap (rows ! i) = Some n"
    and pj: "proposes s fmap (rows ! j) = Some n"
    and first: "\<forall>k<i. proposes s fmap (rows ! k) \<noteq> Some n"
    and fresh: "n \<notin> proposed_new_names st"
    and free: "\<forall>old_path. fmap (key_of (rows ! i)) = Some old_path \<longrightarrow>
        \<not> path_exists fs (new_path_of s (rows ! i) old_path)"
  shows "fst (preview_loop s fmap fs rows st) ! i = Preview_Rename
       \<and> fst (preview_loop s fmap fs rows st) ! j = Preview_Collision"
proof -
  let ?at = "\<lambda>k. snd (preview_loop s fmap fs (take k rows) st)"
  from ij have i_len: "i < length rows" by simp
  from proposes_Some [OF pi] obtain pa where ma: "fmap (key_of (rows ! i)) = Some pa"
    by blast
  from proposes_Some [OF pj] obtain pb where mb: "fmap (key_of (rows ! j)) = Some pb"
    by blast
  have unclaimed: "n \<notin> proposed_new_names (?at i)"
  proof
    assume "n \<in> proposed_new_names (?at i)"
    from preview_loop_proposed_upper [OF this] fresh
    obtain k where "k < length (take i rows)" and "proposes s fmap (take i rows ! k) = Some n"
      by blast
    with first show False by simp
  qed
  from free ma have "\<not> path_exists fs (new_path_of s (rows ! i) pa)"
    by blast
  with unclaimed have row_i: "preview_row s fmap fs (rows ! i) (?at i) =
      (Preview_Rename,
       (?at i)\<lparr>proposed_new_names := insert n (proposed_new_names (?at i)),
          changes_count := changes_count (?at i) + 1\<rparr>)"
    by (simp add: preview_row_proposing [OF pi ma])
  then have status_i: "fst (preview_loop s fmap fs rows st) ! i = Preview_Rename"
    by (simp add: preview_loop_nth [OF i_len])
  have "take (Suc i) rows = take i rows @ [rows ! i]"
    using i_len by (rule take_Suc_conv_app_nth)
  then have "?at (Suc i) = snd (preview_row s fmap fs (rows ! i) (?at i))"
    by (simp add: preview_loop_append split_beta)
  with row_i have claimed: "n \<in> proposed_new_names (?at (Suc i))"
    by simp
  from ij have "take j rows = take (Suc i) rows @ drop (Suc i) (take j rows)"
    by (metis Suc_leI append_take_drop_id take_take min.absorb1 min.commute)
  then have "?at j = snd (preview_loop s fmap fs (drop (Suc i) (take j rows)) (?at (Suc i)))"
    by (metis preview_loop_append snd_conv)
  with claimed preview_loop_proposed_mono [of "?at (Suc i)" s fmap fs "drop (Suc i) (take j rows)"]
  have "n \<in> proposed_new_names (?at j)"
    by auto
  then have "fst (preview_row s fmap fs (rows ! j) (?at j)) = Preview_Collision"
    by (simp add: preview_row_proposing [OF pj mb])
  with ij have "fst (preview_loop s fmap fs rows st) ! j = Preview_Collision"
    by (simp add: preview_loop_nth)
  with status_i show ?thesis by simp
qed
text \<open>
  In a live pass, two rows next to each other whose files lie in one folder and that
  generate the same new name: once the first rename has been performed the target exists,
  so the second row is recorded as ``Target exists'' and its file keeps its name.
\<close>

lemma live_second_claim_refused:
  assumes live: "\<not> dry_run_var s"
    and a: "key_of ra \<noteq> []" "files_map st (key_of ra) = Some pa" "new_name_of s ra \<noteq> key_of ra"
    and b: "key_of rb \<noteq> []" "files_map st (key_of rb) = Some pb" "new_name_of s rb \<noteq> key_of rb"
    and same_name: "new_name_of s rb = new_name_of s ra"
    and same_dir: "dirname pb = dirname pa"
    and files: "inode_of (disk st) pa = Some i" "inode_of (disk st) pb = Some j" "i \<noteq> j"
    and free: "\<not> path_exists (disk st) (new_path_of s ra pa)"
    and unlocked: "rename_error (disk st) pa (new_path_of s ra pa) = None"
  shows "\<exists>st1 st2.
      row_step s idx ra st = Inr (Renamed, st1) \<and>
      row_step s (idx + 1) rb st1 = Inr (Error_Target_Exists, st2) \<and>
      disk st2 = disk st1 \<and>
      inode_of (disk st2) pb = Some j \<and>
      inode_of (disk st2) (new_path_of s ra pa) = Some i \<and>
      rename_loop s idx (ra # rb # rows) st =
        (case rename_loop s (idx + 2) rows st2 of
           (ocs, st', err) \<Rightarrow> (Renamed # Error_Target_Exists # ocs, st', err))"
proof -
  let ?np = "new_path_of s ra pa"
  let ?fs1 = "(disk st)\<lparr>inode_of := (inode_of (disk st))(pa := None, ?np \<mapsto> i)\<rparr>"
  let ?st1 = "st\<lparr>disk := ?fs1,
      log_file := log_file st @
        [mark_done @ '' '' @ key_of ra @ nl, ''  '' @ mark_to @ '' '' @ new_name_of s ra @ nl] @
        (if strip (Notes ra) \<noteq> [] then [''  User Note: '' @ strip (Notes ra) @ nl] else []) @ [nl],
      renamed_count := renamed_count st + 1,
      files_map := (files_map st)(key_of ra := None, new_name_of s ra \<mapsto> ?np)\<rparr>"
  let ?st2 = "?st1\<lparr>log_file := log_file ?st1 @
        [mark_fail @ '' '' @ key_of rb @ nl,
         ''  ERROR: Target exists: '' @ new_name_of s rb @ nl @ nl],
      error_count := error_count ?st1 + 1\<rparr>"
  from free have gone: "inode_of (disk st) ?np = None"
    by (simp add: path_exists_def)
  with files(1) unlocked have "os_rename (disk st) pa ?np = Inr ?fs1"
    by (simp add: os_rename_moves)
  with live a free have step_a: "row_step s idx ra st = Inr (Renamed, ?st1)"
    by (simp add: row_step_try_rename try_rename_performed)
  from files have paths: "pb \<noteq> pa" by auto
  from files(2) gone have other: "pb \<noteq> ?np" by auto
  from a(2) b(2) paths have keys: "key_of rb \<noteq> key_of ra" by auto
  from b(3) same_name have not_new: "key_of rb \<noteq> new_name_of s ra" by simp
  from keys not_new b(2) have matched: "files_map ?st1 (key_of rb) = Some pb"
    by simp
  from same_name same_dir have target: "new_path_of s rb pb = ?np"
    by (simp add: new_path_of_def)
  have there: "path_exists (disk ?st1) (new_path_of s rb pb)"
    by (simp add: target path_exists_def)
  from paths other files(2) have later: "inode_of (disk ?st1) pb = Some j"
    by simp
  have earlier: "inode_of (disk ?st1) ?np = Some i"
    by simp
  from samefile_defined [OF later earlier] files(3)
  have differ: "samefile (disk ?st1) pb (new_path_of s rb pb) = Inr False"
    by (simp add: target)
  from row_step_target_exists [OF b(1) matched b(3) there differ, of "idx + 1"]
  have step_b: "row_step s (idx + 1) rb ?st1 = Inr (Error_Target_Exists, ?st2)" .
  have disk2: "disk ?st2 = disk ?st1" by simp
  from later earlier have on_disk: "inode_of (disk ?st2) pb = Some j"
    "inode_of (disk ?st2) ?np = Some i"
    by simp_all
  from step_a step_b have loop: "rename_loop s idx (ra # rb # rows) st =
      (case rename_loop s (idx + 2) rows ?st2 of
         (ocs, st', err) \<Rightarrow> (Renamed # Error_Target_Exists # ocs, st', err))"
    by (simp add: split_beta)
  from step_a step_b disk2 on_disk loop show ?thesis by blast
qed

text \<open>
  C2 (as amended).  In the preview, for two rows that are both matched and whose generated
  names are equal and differ from their current names: when no earlier row proposes that
  name and nothing exists at the earlier row's target path, the earlier row is shown as a
  rename and the later row as a collision.  In a live pass, when the two rows follow one
  another, their files are different files of one folder, the target path is free and the
  system performs the first rename, the first row is renamed and the second is recorded as
  the error ``Target exists''; its rename is not performed and its file keeps its name.
\<close>

theorem first_row_wins_the_name:
  "(\<forall>i j n.
      i < j \<and> j < length df \<and>
      proposes s (files_map_of files) (df ! i) = Some n \<and>
      proposes s (files_map_of files) (df ! j) = Some n \<and>
      (\<forall>k<i. proposes s (files_map_of files) (df ! k) \<noteq> Some n) \<and>
      (\<forall>old_path. files_map_of files (key_of (df ! i)) = Some old_path \<longrightarrow>
         \<not> path_exists fs (new_path_of s (df ! i) old_path)) \<longrightarrow>
        fst (preview_changes s df files fs) ! i = Preview_Rename \<and>
        fst (preview_changes s df files fs) ! j = Preview_Collision)
   \<and> (\<not> dry_run_var s \<and>
       key_of ra \<noteq> [] \<and> files_map st (key_of ra) = Some pa \<and> new_name_of s ra \<noteq> key_of ra \<and>
       key_of rb \<noteq> [] \<and> files_map st (key_of rb) = Some pb \<and> new_name_of s rb \<noteq> key_of rb \<and>
       new_name_of s rb = new_name_of s ra \<and> dirname pb = dirname pa \<and>
       inode_of (disk st) pa = Some fa \<and> inode_of (disk st) pb = Some fb \<and> fa \<noteq> fb \<and>
       \<not> path_exists (disk st) (new_path_of s ra pa) \<and>
       rename_error (disk st) pa (new_path_of s ra pa) = None \<longrightarrow>
        (\<exists>st1 st2.
           row_step s idx ra st = Inr (Renamed, st1) \<and>
           row_step s (idx + 1) rb st1 = Inr (Error_Target_Exists, st2) \<and>
           disk st2 = disk st1 \<and>
           inode_of (disk st2) pb = Some fb \<and>
           inode_of (disk st2) (new_path_of s ra pa) = Some fa \<and>
           rename_loop s idx (ra # rb # rows) st =
             (case rename_loop s (idx + 2) rows st2 of
                (ocs, st', err) \<Rightarrow> (Renamed # Error_Target_Exists # ocs, st', err))))"
proof (intro conjI allI impI)
  fix i j n
  assume h: "i < j \<and> j < length df \<and>
      proposes s (files_map_of files) (df ! i) = Some n \<and>
      proposes s (files_map_of files) (df ! j) = Some n \<and>
      (\<forall>k<i. proposes s (files_map_of files) (df ! k) \<noteq> Some n) \<and>
      (\<forall>old_path. files_map_of files (key_of (df ! i)) = Some old_path \<longrightarrow>
         \<not> path_exists fs (new_path_of s (df ! i) old_path))"
  let ?st0 = "\<lparr>proposed_new_names = {}, changes_count = 0, missing_files = 0, collisions = 0\<rparr>"
  have fresh: "n \<notin> proposed_new_names ?st0" by simp
  from h have "fst (preview_loop s (files_map_of files) fs df ?st0) ! i = Preview_Rename \<and>
      fst (preview_loop s (files_map_of files) fs df ?st0) ! j = Preview_Collision"
    using preview_first_wins [of i j df s "files_map_of files" n ?st0 fs] fresh by blast
  then show "fst (preview_changes s df files fs) ! i = Preview_Rename"
    and "fst (preview_changes s df files fs) ! j = Preview_Collision"
    by (simp_all add: preview_changes_def)
next
  assume h: "\<not> dry_run_var s \<and>
       key_of ra \<noteq> [] \<and> files_map st (key_of ra) = Some pa \<and> new_name_of s ra \<noteq> key_of ra \<and>
       key_of rb \<noteq> [] \<and> files_map st (key_of rb) = Some pb \<and> new_name_of s rb \<noteq> key_of rb \<and>
       new_name_of s rb = new_name_of s ra \<and> dirname pb = dirname pa \<and>
       inode_of (disk st) pa = Some fa \<and> inode_of (disk st) pb = Some fb \<and> fa \<noteq> fb \<and>
       \<not> path_exists (disk st) (new_path_of s ra pa) \<and>
       rename_error (disk st) pa (new_path_of s ra pa) = None"
  then show "\<exists>st1 st2.
           row_step s idx ra st = Inr (Renamed, st1) \<and>
           row_step s (idx + 1) rb st1 = Inr (Error_Target_Exists, st2) \<and>
           disk st2 = disk st1 \<and>
           inode_of (disk st2) pb = Some fb \<and>
           inode_of (disk st2) (new_path_of s ra pa) = Some fa \<and>
           rename_loop s idx (ra # rb # rows) st =
             (case rename_loop s (idx + 2) rows st2 of
                (ocs, st', err) \<Rightarrow> (Renamed # Error_Target_Exists # ocs, st', err))"
    using live_second_claim_refused [of s ra st pa rb pb fa fb idx rows] by blast
qed

theorem first_row_wins_the_name_witness:
  "fst (preview_changes (demo_settings False)
      [demo_row ''a.pdf'' ''c'', demo_row ''zz.pdf'' ''q'', demo_row ''b.pdf'' ''c'']
      [''/d/a.pdf'', ''/d/b.pdf''] (demo_folder [(''/d/a.pdf'', 1), (''/d/b.pdf'', 2)] [])) ! 0 =
     Preview_Rename
   \<and> fst (preview_changes (demo_settings False)
      [demo_row ''a.pdf'' ''c'', demo_row ''zz.pdf'' ''q'', demo_row ''b.pdf'' ''c'']
      [''/d/a.pdf'', ''/d/b.pdf''] (demo_folder [(''/d/a.pdf'', 1), (''/d/b.pdf'', 2)] [])) ! 2 =
     Preview_Collision
   \<and> (\<exists>st1 st2.
        row_step (demo_settings False) 0 (demo_row ''a.pdf'' ''c'')
          (initial_state (demo_settings False) demo_env [''/d/a.pdf'', ''/d/b.pdf'']
             (demo_folder [(''/d/a.pdf'', 1), (''/d/b.pdf'', 2)] [])) = Inr (Renamed, st1) \<and>
        row_step (demo_settings False) (0 + 1) (demo_row ''b.pdf'' ''c'') st1 =
          Inr (Error_Target_Exists, st2) \<and>
        inode_of (disk st2) ''/d/b.pdf'' = Some 2 \<and> inode_of (disk st2) ''/d/c.pdf'' = Some 1)"
proof -
  let ?s = "demo_settings False"
  let ?df = "[demo_row ''a.pdf'' ''c'', demo_row ''zz.pdf'' ''q'', demo_row ''b.pdf'' ''c'']"
  let ?files = "[''/d/a.pdf'', ''/d/b.pdf'']"
  let ?fs = "demo_folder [(''/d/a.pdf'', 1), (''/d/b.pdf'', 2)] []"
  let ?st = "initial_state ?s demo_env ?files ?fs"
  let ?ra = "demo_row ''a.pdf'' ''c''"
  let ?rb = "demo_row ''b.pdf'' ''c''"
  note t = first_row_wins_the_name [of ?df ?s ?files ?fs ?ra ?st "''/d/a.pdf''" ?rb "''/d/b.pdf''"
      1 2 0 "[]"]
  have order: "(0::nat) < 2 \<and> 2 < length ?df" by simp
  have pi: "proposes ?s (files_map_of ?files) (?df ! 0) = Some ''c.pdf''"
    by code_simp
  have pj: "proposes ?s (files_map_of ?files) (?df ! 2) = Some ''c.pdf''"
    by code_simp
  have first: "\<forall>k<0::nat. proposes ?s (files_map_of ?files) (?df ! k) \<noteq> Some ''c.pdf''"
    by simp
  have m: "files_map_of ?files (key_of (?df ! 0)) = Some ''/d/a.pdf''"
    by code_simp
  have none: "\<not> path_exists ?fs (new_path_of ?s (?df ! 0) ''/d/a.pdf'')"
    by code_simp
  from m none have free: "\<forall>old_path. files_map_of ?files (key_of (?df ! 0)) = Some old_path \<longrightarrow>
      \<not> path_exists ?fs (new_path_of ?s (?df ! 0) old_path)"
    by simp
  from t order pi pj first free
  have preview: "fst (preview_changes ?s ?df ?files ?fs) ! 0 = Preview_Rename \<and>
      fst (preview_changes ?s ?df ?files ?fs) ! 2 = Preview_Collision"
    by blast
  have live: "\<not> dry_run_var ?s"
    by (simp add: demo_settings_def)
  have a: "key_of ?ra \<noteq> [] \<and> files_map ?st (key_of ?ra) = Some ''/d/a.pdf'' \<and>
      new_name_of ?s ?ra \<noteq> key_of ?ra"
    by code_simp
  have b: "key_of ?rb \<noteq> [] \<and> files_map ?st (key_of ?rb) = Some ''/d/b.pdf'' \<and>
      new_name_of ?s ?rb \<noteq> key_of ?rb"
    by code_simp
  have same: "new_name_of ?s ?rb = new_name_of ?s ?ra \<and> dirname ''/d/b.pdf'' = dirname ''/d/a.pdf''"
    by code_simp
  have on_disk: "inode_of (disk ?st) ''/d/a.pdf'' = Some 1 \<and> inode_of (disk ?st) ''/d/b.pdf'' = Some 2 \<and>
      (1::nat) \<noteq> 2"
    by code_simp
  have target: "\<not> path_exists (disk ?st) (new_path_of ?s ?ra ''/d/a.pdf'') \<and>
      rename_error (disk ?st) ''/d/a.pdf'' (new_path_of ?s ?ra ''/d/a.pdf'') = None"
    by code_simp
  have np: "new_path_of ?s ?ra ''/d/a.pdf'' = ''/d/c.pdf''"
    by code_simp
  from t live a b same on_disk target
  have "\<exists>st1 st2.
      row_step ?s 0 ?ra ?st = Inr (Renamed, st1) \<and>
      row_step ?s (0 + 1) ?rb st1 = Inr (Error_Target_Exists, st2) \<and>
      disk st2 = disk st1 \<and>
      inode_of (disk st2) ''/d/b.pdf'' = Some 2 \<and>
      inode_of (disk st2) (new_path_of ?s ?ra ''/d/a.pdf'') = Some 1 \<and>
      rename_loop ?s 0 (?ra # ?rb # []) ?st =
        (case rename_loop ?s (0 + 2) [] st2 of
           (ocs, st', err) \<Rightarrow> (Renamed # Error_Target_Exists # ocs, st', err))"
    by blast
  then have "\<exists>st1 st2.
      row_step ?s 0 ?ra ?st = Inr (Renamed, st1) \<and>
      row_step ?s (0 + 1) ?rb st1 = Inr (Error_Target_Exists, st2) \<and>
      inode_of (disk st2) ''/d/b.pdf'' = Some 2 \<and>
      inode_of (disk st2) ''/d/c.pdf'' = Some 1"
    unfolding np by blast
  with preview show ?thesis by blast
qed

text \<open>
  C2 as stated fails in two ways.  When \<^verbatim>\<open>c.pdf\<close> is already in the folder, two rows that
  rename \<^verbatim>\<open>a.pdf\<close> and \<^verbatim>\<open>b.pdf\<close> to it are both collisions: the earlier row is not a rename,
  in the preview and in the live pass alike.  And when the two files lie in different
  folders of a recursive listing, the live pass renames both, each within its own folder,
  although the preview shows the later row as a collision.
\<close>

theorem earlier_row_is_not_always_renamed:
  "fst (preview_changes (demo_settings False)
      [demo_row ''a.pdf'' ''c'', demo_row ''b.pdf'' ''c'']
      [''/d/a.pdf'', ''/d/b.pdf'', ''/d/c.pdf'']
      (demo_folder [(''/d/a.pdf'', 1), (''/d/b.pdf'', 2), (''/d/c.pdf'', 3)] [])) =
     [Preview_Collision, Preview_Collision]
   \<and> outcomes (rename_files_from_excel (demo_settings False) demo_env
      [demo_row ''a.pdf'' ''c'', demo_row ''b.pdf'' ''c'']
      [''/d/a.pdf'', ''/d/b.pdf'', ''/d/c.pdf'']
      (demo_folder [(''/d/a.pdf'', 1), (''/d/b.pdf'', 2), (''/d/c.pdf'', 3)] [])) =
     [Error_Target_Exists, Error_Target_Exists]
   \<and> fst (preview_changes (demo_settings False)
      [demo_row ''a.pdf'' ''c'', demo_row ''b.pdf'' ''c'']
      [''/d/x/a.pdf'', ''/d/y/b.pdf'']
      (demo_folder [(''/d/x/a.pdf'', 1), (''/d/y/b.pdf'', 2)] [])) =
     [Preview_Rename, Preview_Collision]
   \<and> outcomes (rename_files_from_excel (demo_settings False) demo_env
      [demo_row ''a.pdf'' ''c'', demo_row ''b.pdf'' ''c'']
      [''/d/x/a.pdf'', ''/d/y/b.pdf'']
      (demo_folder [(''/d/x/a.pdf'', 1), (''/d/y/b.pdf'', 2)] [])) =
     [Renamed, Renamed]
   \<and> inode_of (folder (rename_files_from_excel (demo_settings False) demo_env
      [demo_row ''a.pdf'' ''c'', demo_row ''b.pdf'' ''c'']
      [''/d/x/a.pdf'', ''/d/y/b.pdf'']
      (demo_folder [(''/d/x/a.pdf'', 1), (''/d/y/b.pdf'', 2)] []))) ''/d/y/c.pdf'' = Some 2"
  by code_simp

end
